theory Spec2Isabelle
  imports Complex_Main "HOL-Library.Char_ord" "HOL-Library.List_Lexorder" "HOL-Library.AList"
begin

section \<open>Python strings\<close>

text \<open>
  A Python \<open>str\<close> is modelled as a \<^typ>\<open>string\<close> whose characters are the code points
  U+0000 to U+00FF: \<^term>\<open>length\<close> counts code points, as \<open>len\<close> does, and the
  accented letters of the source's patterns (the range from U+00C0 to U+00FF, the
  accented vowels of the Spanish section headers) are single characters. Strings are
  compared as Python compares them, lexicographically by code point.
\<close>

definition cp :: "char \<Rightarrow> nat" where
  "cp c = of_char c"

text \<open>\<open>str.isspace\<close> on one character, which is also the class \<open>\s\<close> of \<open>re\<close>.\<close>

definition is_space :: "char \<Rightarrow> bool" where
  "is_space c = (let n = cp c in
     (9 \<le> n \<and> n \<le> 13) \<or> (28 \<le> n \<and> n \<le> 32) \<or> n = 133 \<or> n = 160)"

text \<open>The class \<open>\d\<close>: the decimal digits.\<close>

definition is_digit :: "char \<Rightarrow> bool" where
  "is_digit c = (let n = cp c in 48 \<le> n \<and> n \<le> 57)"

text \<open>The class \<open>\w\<close>: what \<open>str.isalnum\<close> accepts, and the underscore.\<close>

definition is_word :: "char \<Rightarrow> bool" where
  "is_word c = (let n = cp c in
     (48 \<le> n \<and> n \<le> 57) \<or> (65 \<le> n \<and> n \<le> 90) \<or> n = 95 \<or> (97 \<le> n \<and> n \<le> 122)
     \<or> n = 170 \<or> n = 178 \<or> n = 179 \<or> n = 181 \<or> n = 185 \<or> n = 186
     \<or> (188 \<le> n \<and> n \<le> 190) \<or> (192 \<le> n \<and> n \<le> 214) \<or> (216 \<le> n \<and> n \<le> 246)
     \<or> 248 \<le> n)"

definition lower_char :: "char \<Rightarrow> char" where
  "lower_char c = (let n = cp c in
     if (65 \<le> n \<and> n \<le> 90) \<or> (192 \<le> n \<and> n \<le> 214) \<or> (216 \<le> n \<and> n \<le> 222)
     then char_of (n + 32) else c)"

definition upper_char :: "char \<Rightarrow> char" where
  "upper_char c = (let n = cp c in
     if (97 \<le> n \<and> n \<le> 122) \<or> (224 \<le> n \<and> n \<le> 246) \<or> (248 \<le> n \<and> n \<le> 254)
     then char_of (n - 32) else c)"

text \<open>\<open>s.lower()\<close>\<close>

definition lower :: "string \<Rightarrow> string" where
  "lower s = map lower_char s"

text \<open>\<open>s.strip()\<close>\<close>

definition lstrip :: "string \<Rightarrow> string" where
  "lstrip s = dropWhile is_space s"

definition rstrip :: "string \<Rightarrow> string" where
  "rstrip s = rev (dropWhile is_space (rev s))"

definition strip :: "string \<Rightarrow> string" where
  "strip s = rstrip (lstrip s)"

text \<open>\<open>s.startswith(p)\<close>, \<open>s.endswith(p)\<close> and \<open>p in s\<close> on strings.\<close>

fun startswith :: "string \<Rightarrow> string \<Rightarrow> bool" where
  "startswith s [] = True"
| "startswith [] (y # ys) = False"
| "startswith (x # xs) (y # ys) = (x = y \<and> startswith xs ys)"

definition endswith :: "string \<Rightarrow> string \<Rightarrow> bool" where
  "endswith s p = startswith (rev s) (rev p)"

fun contains :: "string \<Rightarrow> string \<Rightarrow> bool" where
  "contains [] p = (p = [])"
| "contains (x # xs) p = (startswith (x # xs) p \<or> contains xs p)"

text \<open>\<open>s.split(sep)\<close> for a one-character separator: never empty, keeps empty fields.\<close>

fun split_on :: "char \<Rightarrow> string \<Rightarrow> string list" where
  "split_on d [] = [[]]"
| "split_on d (x # xs) =
     (if x = d then [] # split_on d xs
      else (case split_on d xs of [] \<Rightarrow> [[x]] | w # tl_ws \<Rightarrow> (x # w) # tl_ws))"

text \<open>\<open>sep.join(xs)\<close>\<close>

fun join :: "string \<Rightarrow> string list \<Rightarrow> string" where
  "join sep [] = []"
| "join sep [x] = x"
| "join sep (x # y # ys) = x @ sep @ join sep (y # ys)"

section \<open>Regular expressions\<close>

text \<open>
  The source hands its patterns to Python's \<open>re\<close>, a backtracking matcher. The patterns
  are kept as syntax trees, one constructor for each construct the source's patterns use,
  and matched as \<open>re\<close> matches them: alternatives are tried from left to right, greedy
  repetitions take the longest run first and give back one iteration at a time, lazy ones
  the shortest first, and the first way through the whole pattern is the match.
\<close>

datatype citem = Single char | Range char char | ClsSpace | ClsDigit | ClsWord

datatype regex =
    Lit char
  | Dot
  | Cls "citem list"
  | NCls "citem list"
  | Bol
  | Eol
  | Eps
  | Seq regex regex
  | Alt regex regex
  | Opt regex
  | Star regex
  | Plus regex
  | LazyPlus regex
  | Rep nat nat regex
  | Grp string regex

text \<open>A run of literal characters, and a sequence of patterns.\<close>

fun lits :: "string \<Rightarrow> regex" where
  "lits [] = Eps"
| "lits [c] = Lit c"
| "lits (c # d # cs) = Seq (Lit c) (lits (d # cs))"

fun cat :: "regex list \<Rightarrow> regex" where
  "cat [] = Eps"
| "cat [r] = r"
| "cat (r # q # rs) = Seq r (cat (q # rs))"

fun alts :: "regex list \<Rightarrow> regex" where
  "alts [] = Eps"
| "alts [r] = r"
| "alts (r # q # rs) = Alt r (alts (q # rs))"

record re_flags =
  multiline :: bool
  ignorecase :: bool

definition no_flags :: re_flags where
  "no_flags = \<lparr>multiline = False, ignorecase = False\<rparr>"

definition MULTILINE :: re_flags where
  "MULTILINE = \<lparr>multiline = True, ignorecase = False\<rparr>"

definition IGNORECASE :: re_flags where
  "IGNORECASE = \<lparr>multiline = False, ignorecase = True\<rparr>"

definition IGNORECASE_MULTILINE :: re_flags where
  "IGNORECASE_MULTILINE = \<lparr>multiline = True, ignorecase = True\<rparr>"

fun in_item :: "citem \<Rightarrow> char \<Rightarrow> bool" where
  "in_item (Single a) x = (x = a)"
| "in_item (Range a b) x = (cp a \<le> cp x \<and> cp x \<le> cp b)"
| "in_item ClsSpace x = is_space x"
| "in_item ClsDigit x = is_digit x"
| "in_item ClsWord x = is_word x"

definition in_class :: "re_flags \<Rightarrow> citem list \<Rightarrow> char \<Rightarrow> bool" where
  "in_class f its x =
     (if ignorecase f
      then list_ex (\<lambda>i. in_item i x \<or> in_item i (lower_char x) \<or> in_item i (upper_char x)) its
      else list_ex (\<lambda>i. in_item i x) its)"

definition lit_eq :: "re_flags \<Rightarrow> char \<Rightarrow> char \<Rightarrow> bool" where
  "lit_eq f a x = (if ignorecase f then lower_char x = lower_char a else x = a)"

text \<open>
  A position in the subject: the character before it (none at the start), the rest of
  the subject from it, and the groups captured so far.
\<close>

type_synonym cfg = "char option \<times> string \<times> (string \<times> string) list"

fun rest :: "cfg \<Rightarrow> string" where
  "rest (p, s, g) = s"

fun at_bol :: "re_flags \<Rightarrow> cfg \<Rightarrow> bool" where
  "at_bol f (p, s, g) = (p = None \<or> (multiline f \<and> p = Some (CHR 0x0A)))"

fun at_eol :: "re_flags \<Rightarrow> cfg \<Rightarrow> bool" where
  "at_eol f (p, s, g) =
     (s = [] \<or> (if multiline f then hd s = CHR 0x0A else s = [CHR 0x0A]))"

fun step :: "(char \<Rightarrow> bool) \<Rightarrow> cfg \<Rightarrow> (cfg \<Rightarrow> cfg option) \<Rightarrow> cfg option" where
  "step P (p, [], g) k = None"
| "step P (p, x # xs, g) k = (if P x then k (Some x, xs, g) else None)"

text \<open>
  Repetition. Each iteration must consume a character, so the length of the rest bounds
  the number of iterations.
\<close>

fun greedy :: "(cfg \<Rightarrow> (cfg \<Rightarrow> cfg option) \<Rightarrow> cfg option) \<Rightarrow> nat \<Rightarrow> cfg
    \<Rightarrow> (cfg \<Rightarrow> cfg option) \<Rightarrow> cfg option" where
  "greedy m 0 (p, s, g) k = k (p, s, g)"
| "greedy m (Suc n) (p, s, g) k =
     (case m (p, s, g) (\<lambda>c'. if length (rest c') < length s then greedy m n c' k else None) of
        Some r \<Rightarrow> Some r
      | None \<Rightarrow> k (p, s, g))"

fun lazy :: "(cfg \<Rightarrow> (cfg \<Rightarrow> cfg option) \<Rightarrow> cfg option) \<Rightarrow> nat \<Rightarrow> cfg
    \<Rightarrow> (cfg \<Rightarrow> cfg option) \<Rightarrow> cfg option" where
  "lazy m 0 (p, s, g) k = k (p, s, g)"
| "lazy m (Suc n) (p, s, g) k =
     (case k (p, s, g) of
        Some r \<Rightarrow> Some r
      | None \<Rightarrow>
          m (p, s, g) (\<lambda>c'. if length (rest c') < length s then lazy m n c' k else None))"

text \<open>\<open>r{lo,hi}\<close>: \<open>lo\<close> iterations that must match, then up to \<open>hi - lo\<close> greedy ones.\<close>

fun rep :: "(cfg \<Rightarrow> (cfg \<Rightarrow> cfg option) \<Rightarrow> cfg option) \<Rightarrow> nat \<Rightarrow> nat \<Rightarrow> cfg
    \<Rightarrow> (cfg \<Rightarrow> cfg option) \<Rightarrow> cfg option" where
  "rep m lo 0 (p, s, g) k = (if lo = 0 then k (p, s, g) else None)"
| "rep m lo (Suc hi) (p, s, g) k =
     (if 0 < lo then m (p, s, g) (\<lambda>c'. rep m (lo - 1) hi c' k)
      else (case m (p, s, g) (\<lambda>c'. rep m 0 hi c' k) of
              Some r \<Rightarrow> Some r
            | None \<Rightarrow> k (p, s, g)))"

fun set_group :: "string \<Rightarrow> cfg \<Rightarrow> cfg \<Rightarrow> cfg" where
  "set_group n (p, s, g) (p', s', g') =
     (p', s', AList.update n (take (length s - length s') s) g')"

text \<open>
  \<open>rmatch r f c k\<close> matches \<open>r\<close> at position \<open>c\<close> and hands the position after the match
  to the continuation \<open>k\<close>, the rest of the pattern; when \<open>k\<close> fails, the next way of
  matching \<open>r\<close> is tried.
\<close>

fun rmatch :: "regex \<Rightarrow> re_flags \<Rightarrow> cfg \<Rightarrow> (cfg \<Rightarrow> cfg option) \<Rightarrow> cfg option" where
  "rmatch (Lit a) f (p, s, g) k = step (lit_eq f a) (p, s, g) k"
| "rmatch Dot f (p, s, g) k = step (\<lambda>x. x \<noteq> CHR 0x0A) (p, s, g) k"
| "rmatch (Cls its) f (p, s, g) k = step (in_class f its) (p, s, g) k"
| "rmatch (NCls its) f (p, s, g) k = step (\<lambda>x. \<not> in_class f its x) (p, s, g) k"
| "rmatch Bol f (p, s, g) k = (if at_bol f (p, s, g) then k (p, s, g) else None)"
| "rmatch Eol f (p, s, g) k = (if at_eol f (p, s, g) then k (p, s, g) else None)"
| "rmatch Eps f (p, s, g) k = k (p, s, g)"
| "rmatch (Seq a b) f (p, s, g) k = rmatch a f (p, s, g) (\<lambda>c'. rmatch b f c' k)"
| "rmatch (Alt a b) f (p, s, g) k =
     (case rmatch a f (p, s, g) k of Some r \<Rightarrow> Some r | None \<Rightarrow> rmatch b f (p, s, g) k)"
| "rmatch (Opt a) f (p, s, g) k =
     (case rmatch a f (p, s, g) k of Some r \<Rightarrow> Some r | None \<Rightarrow> k (p, s, g))"
| "rmatch (Star a) f (p, s, g) k = greedy (rmatch a f) (length s) (p, s, g) k"
| "rmatch (Plus a) f (p, s, g) k =
     rmatch a f (p, s, g) (\<lambda>c'. greedy (rmatch a f) (length (rest c')) c' k)"
| "rmatch (LazyPlus a) f (p, s, g) k =
     rmatch a f (p, s, g) (\<lambda>c'. lazy (rmatch a f) (length (rest c')) c' k)"
| "rmatch (Rep lo hi a) f (p, s, g) k = rep (rmatch a f) lo hi (p, s, g) k"
| "rmatch (Grp n a) f (p, s, g) k = rmatch a f (p, s, g) (\<lambda>c'. k (set_group n (p, s, g) c'))"

text \<open>
  A match object: where the match starts and ends in the subject, the matched text
  (\<open>group(0)\<close>) and the groups that took part (\<open>groupdict()\<close>; a numbered group is named
  by its number).
\<close>

record match =
  m_start :: nat
  m_end :: nat
  m_text :: string
  m_groups :: "(string \<times> string) list"

definition mk_match :: "nat \<Rightarrow> string \<Rightarrow> cfg \<Rightarrow> match" where
  "mk_match n s c = (case c of (p', s', g) \<Rightarrow>
     \<lparr>m_start = n, m_end = n + (length s - length s'),
      m_text = take (length s - length s') s, m_groups = g\<rparr>)"

text \<open>\<open>match.group(name)\<close>: \<open>None\<close> for a group that took no part in the match.\<close>

definition group :: "match \<Rightarrow> string \<Rightarrow> string option" where
  "group m n = map_of (m_groups m) n"

text \<open>\<open>re.match\<close>: a match at the start of the subject only.\<close>

definition re_match :: "regex \<Rightarrow> re_flags \<Rightarrow> string \<Rightarrow> match option" where
  "re_match r f s = map_option (mk_match 0 s) (rmatch r f (None, s, []) Some)"

text \<open>\<open>re.search\<close>: the match at the leftmost position that has one.\<close>

fun search_from :: "regex \<Rightarrow> re_flags \<Rightarrow> char option \<Rightarrow> nat \<Rightarrow> string \<Rightarrow> match option" where
  "search_from r f p n [] = map_option (mk_match n []) (rmatch r f (p, [], []) Some)"
| "search_from r f p n (x # xs) =
     (case rmatch r f (p, x # xs, []) Some of
        Some c \<Rightarrow> Some (mk_match n (x # xs) c)
      | None \<Rightarrow> search_from r f (Some x) (Suc n) xs)"

definition re_search :: "regex \<Rightarrow> re_flags \<Rightarrow> string \<Rightarrow> match option" where
  "re_search r f s = search_from r f None 0 s"

text \<open>
  \<open>re.finditer\<close>: the matches from left to right, each search starting where the match
  before it ended. After an empty match the next one at the same position must consume
  a character (\<open>adv\<close>).
\<close>

function finditer_from :: "regex \<Rightarrow> re_flags \<Rightarrow> char option \<Rightarrow> nat \<Rightarrow> bool \<Rightarrow> string \<Rightarrow> match list" where
  "finditer_from r f p n adv s =
     (case rmatch r f (p, s, [])
             (\<lambda>c. if adv \<and> length (rest c) = length s then None else Some c) of
        Some c \<Rightarrow>
          (case c of (p', s', g) \<Rightarrow>
             if length s' < length s
             then mk_match n s c # finditer_from r f p' (n + (length s - length s')) False s'
             else if \<not> adv \<and> length s' = length s
             then mk_match n s c # finditer_from r f p n True s
             else [])
      | None \<Rightarrow>
          (case s of
             [] \<Rightarrow> []
           | x # xs \<Rightarrow> finditer_from r f (Some x) (Suc n) False xs))"
  by pat_completeness auto
termination
  by (relation "measure (\<lambda>(r, f, p, n, adv, s). 2 * length s + (if adv then 0 else 1))") auto

declare finditer_from.simps [simp del]

definition re_finditer :: "regex \<Rightarrow> re_flags \<Rightarrow> string \<Rightarrow> match list" where
  "re_finditer r f s = finditer_from r f None 0 False s"

text \<open>
  \<open>re.findall\<close> returns one item for each match of \<open>finditer\<close>; the source only
  counts them.
\<close>

definition re_findall :: "regex \<Rightarrow> re_flags \<Rightarrow> string \<Rightarrow> match list" where
  "re_findall r f s = re_finditer r f s"

text \<open>\<open>re.sub(r, repl, s)\<close> for a replacement without group references.\<close>

fun sub_join :: "match list \<Rightarrow> string \<Rightarrow> string \<Rightarrow> nat \<Rightarrow> string" where
  "sub_join [] repl s pos = drop pos s"
| "sub_join (m # ms) repl s pos =
     take (m_start m - pos) (drop pos s) @ repl @ sub_join ms repl s (m_end m)"

definition re_sub :: "regex \<Rightarrow> re_flags \<Rightarrow> string \<Rightarrow> string \<Rightarrow> string" where
  "re_sub r f repl s = sub_join (re_finditer r f s) repl s 0"

text \<open>\<open>re.split(r, s)\<close> for a pattern without capturing groups.\<close>

fun split_join :: "match list \<Rightarrow> string \<Rightarrow> nat \<Rightarrow> string list" where
  "split_join [] s pos = [drop pos s]"
| "split_join (m # ms) s pos =
     take (m_start m - pos) (drop pos s) # split_join ms s (m_end m)"

definition re_split :: "regex \<Rightarrow> re_flags \<Rightarrow> string \<Rightarrow> string list" where
  "re_split r f s = split_join (re_finditer r f s) s 0"

section \<open>Errors and dictionaries\<close>

datatype error =
  KeyError | IndexError | ValueError | ZeroDivisionError | AttributeError | TypeError | ReError

text \<open>
  A \<open>dict\<close> is an association list in insertion order with distinct keys:
  \<^term>\<open>AList.update\<close> replaces the value of a key in place and appends a new key at
  the end, as assignment to \<open>d[k]\<close> does.
\<close>

type_synonym ('k, 'v) dict = "('k \<times> 'v) list"

definition keys :: "('k, 'v) dict \<Rightarrow> 'k list" where
  "keys d = map fst d"

definition values_of :: "('k, 'v) dict \<Rightarrow> 'v list" where
  "values_of d = map snd d"

definition has_key :: "('k, 'v) dict \<Rightarrow> 'k \<Rightarrow> bool" where
  "has_key d k = (map_of d k \<noteq> None)"

text \<open>\<open>d[k]\<close>\<close>

definition dict_get :: "('k, 'v) dict \<Rightarrow> 'k \<Rightarrow> error + 'v" where
  "dict_get d k = (case map_of d k of None \<Rightarrow> Inl KeyError | Some v \<Rightarrow> Inr v)"

text \<open>\<open>d.get(k, default)\<close>\<close>

definition dict_get_default :: "('k, 'v) dict \<Rightarrow> 'k \<Rightarrow> 'v \<Rightarrow> 'v" where
  "dict_get_default d k v = (case map_of d k of None \<Rightarrow> v | Some w \<Rightarrow> w)"

text \<open>\<open>d[k] += n\<close>\<close>

definition dict_add :: "('k, nat) dict \<Rightarrow> 'k \<Rightarrow> nat \<Rightarrow> error + ('k, nat) dict" where
  "dict_add d k n =
     (case dict_get d k of Inl e \<Rightarrow> Inl e | Inr c \<Rightarrow> Inr (AList.update k (c + n) d))"

text \<open>\<open>max(d, key=d.get)\<close>: the first key, in insertion order, whose value is greatest.\<close>

fun max_key :: "('k, nat) dict \<Rightarrow> error + 'k" where
  "max_key [] = Inl ValueError"
| "max_key ((k, v) # kvs) =
     Inr (fst (foldl (\<lambda>(bk, bv) (k', v'). if bv < v' then (k', v') else (bk, bv)) (k, v) kvs))"

text \<open>
  \<open>a / b\<close> on two counts. The quotient is a float in the source and a real number here:
  the claims about it (its bounds, whether it is zero or one) hold of both.
\<close>

definition py_div :: "nat \<Rightarrow> nat \<Rightarrow> error + real" where
  "py_div a b = (if b = 0 then Inl ZeroDivisionError else Inr (real a / real b))"

text \<open>\<open>sorted(list(set(xs)))\<close>\<close>

definition sorted_set :: "string list \<Rightarrow> string list" where
  "sorted_set xs = sort (remdups xs)"

section \<open>The detector (\<open>detector.py\<close>)\<close>

subsection \<open>The patterns of a table\<close>

text \<open>
  The tables of the detector hold the sources of the patterns, and \<open>re\<close> compiles a source
  each time it is used, as in \<open>re.findall(pattern, text, re.MULTILINE)\<close>. A pattern of a
  table is kept here as what \<open>re\<close> makes of it: the regex, or the exception that \<open>re\<close>
  raises, \<open>re.error\<close> for a source that is malformed (and \<open>TypeError\<close> for an element
  that is not a string). The built-in sources all compile; \<open>_load_custom_patterns\<close> adds
  the sources of a configuration file as they are, without compiling them.
\<close>

type_synonym pattern = "error + regex"

definition compiled :: "regex list \<Rightarrow> pattern list" where
  "compiled rs = map Inr rs"

subsection \<open>Pattern fragments\<close>

text \<open>
  The source's pattern strings repeat a few fragments; each is named here by what it
  reads in the source.
  \<^item> \<open>ws\<close> is \<open>\s\<close>, \<open>digit\<close> is \<open>\d\<close>, \<open>digits\<close> is \<open>\d+\<close>, \<open>year4\<close> is \<open>\d{4}\<close>;
  \<^item> \<open>page_range\<close> is \<open>\d+(?:-\d+)?\<close> and \<open>pages_span\<close> is \<open>\d+-\d+\<close>;
  \<^item> \<open>name\<close> is \<open>[A-Za-z\-]+\<close>, \<open>name2\<close> is \<open>[A-Za-z\-]+(?:\s[A-Za-z\-]+)?\<close>;
  \<^item> \<open>author_etal\<close> is \<open>[A-Za-z\-]+(?:\s[A-Za-z\-]+)?(?: et al\.)?\<close>;
  \<^item> \<open>words\<close> is \<open>[A-Za-z\s]+\<close>, \<open>date_chars\<close> is \<open>[A-Za-z\.\s\d,]+\<close>;
  \<^item> \<open>lazy_any\<close> is \<open>.+?\<close> and \<open>url\<close> is \<open>https?://[^\s]+\<close>.
\<close>

definition AZ :: citem where "AZ = Range (CHR ''A'') (CHR ''Z'')"
definition az :: citem where "az = Range (CHR ''a'') (CHR ''z'')"

definition ws :: regex where "ws = Cls [ClsSpace]"
definition digit :: regex where "digit = Cls [ClsDigit]"
definition digits :: regex where "digits = Plus digit"
definition year4 :: regex where "year4 = Rep 4 4 digit"
definition upper1 :: regex where "upper1 = Cls [AZ]"

definition page_range :: regex where
  "page_range = cat [digits, Opt (cat [Lit (CHR ''-''), digits])]"

definition pages_span :: regex where
  "pages_span = cat [digits, Lit (CHR ''-''), digits]"

definition name :: regex where
  "name = Plus (Cls [AZ, az, Single (CHR ''-'')])"

definition name2 :: regex where
  "name2 = cat [name, Opt (cat [ws, name])]"

definition author_etal :: regex where
  "author_etal = cat [name2, Opt (lits '' et al.'')]"

definition words :: regex where
  "words = Plus (Cls [AZ, az, ClsSpace])"

definition date_chars :: regex where
  "date_chars = Plus (Cls [AZ, az, Single (CHR ''.''), ClsSpace, ClsDigit, Single (CHR '','')])"

definition lazy_any :: regex where
  "lazy_any = LazyPlus Dot"

definition url :: regex where
  "url = cat [lits ''http'', Opt (Lit (CHR ''s'')), lits ''://'', Plus (NCls [ClsSpace])]"

definition dquote :: regex where
  "dquote = Lit (CHR 0x22)"

definition squote :: regex where
  "squote = Lit (CHR 0x27)"

subsection \<open>The in-text patterns of \<open>__init__\<close>\<close>

text \<open>\<open>(?:,\s(?P<pages>p\.?\s\d+(?:-\d+)?))?\<close>, the page suffix of the APA patterns.\<close>

definition apa_pages_opt :: regex where
  "apa_pages_opt =
     Opt (cat [Lit (CHR '',''), ws,
               Grp ''pages'' (cat [Lit (CHR ''p''), Opt (Lit (CHR ''.'')), ws, page_range])])"

text \<open>\<open>(?:, (?P<pages>\d+(?:-\d+)?))?\<close> and \<open>(?:: (?P<pages>\d+(?:-\d+)?))?\<close>\<close>

definition chicago_pages_opt :: regex where
  "chicago_pages_opt = Opt (cat [lits '', '', Grp ''pages'' page_range])"

definition harvard_pages_opt :: regex where
  "harvard_pages_opt = Opt (cat [lits '': '', Grp ''pages'' page_range])"

text \<open>
  \<^verbatim>\<open>\((?P<author>[A-Za-z\-]+(?:\s[A-Za-z\-]+)?(?: et al\.)?),\s(?P<year>\d{4})(?:,\s(?P<pages>p\.?\s\d+(?:-\d+)?))?\)\<close>
  \<^verbatim>\<open>\((?P<author1>[A-Za-z\-]+(?:\s[A-Za-z\-]+)?)\s&\s(?P<author2>[A-Za-z\-]+(?:\s[A-Za-z\-]+)?),\s(?P<year>\d{4})(?:,\s(?P<pages>p\.?\s\d+(?:-\d+)?))?\)\<close>
  \<^verbatim>\<open>\((?P<author>[A-Za-z\-]+(?:\s[A-Za-z\-]+)?)\set\sal\.,\s(?P<year>\d{4})(?:,\s(?P<pages>p\.?\s\d+(?:-\d+)?))?\)\<close>
  \<^verbatim>\<open>(?P<author>[A-Za-z\-]+(?:\s[A-Za-z\-]+)?)\s\((?P<year>\d{4})(?:,\s(?P<pages>p\.?\s\d+(?:-\d+)?))?\)\<close>
\<close>

definition apa_in_text :: "regex list" where
  "apa_in_text =
    [cat [Lit (CHR ''(''), Grp ''author'' author_etal, Lit (CHR '',''), ws, Grp ''year'' year4,
          apa_pages_opt, Lit (CHR '')'')],
     cat [Lit (CHR ''(''), Grp ''author1'' name2, ws, Lit (CHR ''&''), ws, Grp ''author2'' name2,
          Lit (CHR '',''), ws, Grp ''year'' year4, apa_pages_opt, Lit (CHR '')'')],
     cat [Lit (CHR ''(''), Grp ''author'' name2, ws, lits ''et'', ws, lits ''al.,'', ws,
          Grp ''year'' year4, apa_pages_opt, Lit (CHR '')'')],
     cat [Grp ''author'' name2, ws, Lit (CHR ''(''), Grp ''year'' year4, apa_pages_opt,
          Lit (CHR '')'')]]"

text \<open>
  \<^verbatim>\<open>\((?P<author>[A-Za-z\-]+(?:\s[A-Za-z\-]+)?(?: et al\.)?) (?P<pages>\d+(?:-\d+)?)\)\<close>
  \<^verbatim>\<open>\((?P<author1>[A-Za-z\-]+(?:\s[A-Za-z\-]+)?) and (?P<author2>[A-Za-z\-]+(?:\s[A-Za-z\-]+)?) (?P<pages>\d+(?:-\d+)?)\)\<close>
  \<^verbatim>\<open>(?P<author>[A-Za-z\-]+(?:\s[A-Za-z\-]+)?(?: et al\.)?) \((?P<pages>\d+(?:-\d+)?)\)\<close>
\<close>

definition mla_in_text :: "regex list" where
  "mla_in_text =
    [cat [Lit (CHR ''(''), Grp ''author'' author_etal, Lit (CHR '' ''), Grp ''pages'' page_range,
          Lit (CHR '')'')],
     cat [Lit (CHR ''(''), Grp ''author1'' name2, lits '' and '', Grp ''author2'' name2,
          Lit (CHR '' ''), Grp ''pages'' page_range, Lit (CHR '')'')],
     cat [Grp ''author'' author_etal, lits '' ('', Grp ''pages'' page_range, Lit (CHR '')'')]]"

text \<open>
  \<^verbatim>\<open>\((?P<author>[A-Za-z\-]+(?:\s[A-Za-z\-]+)?(?: et al\.)?) (?P<year>\d{4})(?:, (?P<pages>\d+(?:-\d+)?))?\)\<close>
  \<^verbatim>\<open>\((?P<author1>[A-Za-z\-]+(?:\s[A-Za-z\-]+)?) and (?P<author2>[A-Za-z\-]+(?:\s[A-Za-z\-]+)?) (?P<year>\d{4})(?:, (?P<pages>\d+(?:-\d+)?))?\)\<close>
  \<^verbatim>\<open>(?P<author>[A-Za-z\-]+(?:\s[A-Za-z\-]+)?(?: et al\.)?) \((?P<year>\d{4})(?:, (?P<pages>\d+(?:-\d+)?))?\)\<close>
\<close>

definition chicago_author_date_in_text :: "regex list" where
  "chicago_author_date_in_text =
    [cat [Lit (CHR ''(''), Grp ''author'' author_etal, Lit (CHR '' ''), Grp ''year'' year4,
          chicago_pages_opt, Lit (CHR '')'')],
     cat [Lit (CHR ''(''), Grp ''author1'' name2, lits '' and '', Grp ''author2'' name2,
          Lit (CHR '' ''), Grp ''year'' year4, chicago_pages_opt, Lit (CHR '')'')],
     cat [Grp ''author'' author_etal, lits '' ('', Grp ''year'' year4, chicago_pages_opt,
          Lit (CHR '')'')]]"

text \<open>
  \<^verbatim>\<open>^\d+\.\s(?P<citation>.+)\<close>
  \<^verbatim>\<open>(?P<citation>(?:Ibid\.|Op\. cit\.|Loc\. cit\.)(?:,\s\d+(?:-\d+)?)?)\<close>
\<close>

definition chicago_notes_in_text :: "regex list" where
  "chicago_notes_in_text =
    [cat [Bol, digits, Lit (CHR ''.''), ws, Grp ''citation'' (Plus Dot)],
     Grp ''citation''
       (cat [alts [lits ''Ibid.'', lits ''Op. cit.'', lits ''Loc. cit.''],
             Opt (cat [Lit (CHR '',''), ws, page_range])])]"

text \<open>
  \<^verbatim>\<open>\((?P<author>[A-Za-z\-]+(?:\s[A-Za-z\-]+)?(?: et al\.)?),\s(?P<year>\d{4})(?:: (?P<pages>\d+(?:-\d+)?))?\)\<close>
  \<^verbatim>\<open>(?P<author>[A-Za-z\-]+(?:\s[A-Za-z\-]+)?(?: et al\.)?) \((?P<year>\d{4})(?:: (?P<pages>\d+(?:-\d+)?))?\)\<close>
\<close>

definition harvard_in_text :: "regex list" where
  "harvard_in_text =
    [cat [Lit (CHR ''(''), Grp ''author'' author_etal, Lit (CHR '',''), ws, Grp ''year'' year4,
          harvard_pages_opt, Lit (CHR '')'')],
     cat [Grp ''author'' author_etal, lits '' ('', Grp ''year'' year4, harvard_pages_opt,
          Lit (CHR '')'')]]"

text \<open>\<^verbatim>\<open>\[(?P<citation>\d+(?:,\s*\d+)*)\]\<close>\<close>

definition ieee_in_text :: "regex list" where
  "ieee_in_text =
    [cat [Lit (CHR ''[''),
          Grp ''citation'' (cat [digits, Star (cat [Lit (CHR '',''), Star ws, digits])]),
          Lit (CHR '']'')]]"

text \<open>
  \<^verbatim>\<open>\((?P<citation>\d+(?:-\d+)?)\)\<close>
  \<^verbatim>\<open>(?P<citation>[\u00B9\u00B2\u00B3\u2070-\u2079]+)\<close>
  The superscript digits from U+2070 to U+2079 lie outside the code points of the model,
  so the range of the second class has no member here.
\<close>

definition vancouver_in_text :: "regex list" where
  "vancouver_in_text =
    [cat [Lit (CHR ''(''), Grp ''citation'' page_range, Lit (CHR '')'')],
     Grp ''citation'' (Plus (Cls [Single (CHR 0xB9), Single (CHR 0xB2), Single (CHR 0xB3)]))]"

text \<open>
  \<^verbatim>\<open>\((?P<author>[A-Za-z\-]+(?:\s[A-Za-z\-]+)?(?: et al\.)?) (?P<year>\d{4})\)\<close>
  \<^verbatim>\<open>(?P<author>[A-Za-z\-]+(?:\s[A-Za-z\-]+)?(?: et al\.)?) (?P<year>\d{4})\<close>
\<close>

definition cse_in_text :: "regex list" where
  "cse_in_text =
    [cat [Lit (CHR ''(''), Grp ''author'' author_etal, Lit (CHR '' ''), Grp ''year'' year4,
          Lit (CHR '')'')],
     cat [Grp ''author'' author_etal, Lit (CHR '' ''), Grp ''year'' year4]]"

definition default_in_text_patterns :: "(string, pattern list) dict" where
  "default_in_text_patterns =
    [(''APA'', compiled apa_in_text),
     (''MLA'', compiled mla_in_text),
     (''CHICAGO_AUTHOR_DATE'', compiled chicago_author_date_in_text),
     (''CHICAGO_NOTES'', compiled chicago_notes_in_text),
     (''HARVARD'', compiled harvard_in_text),
     (''IEEE'', compiled ieee_in_text),
     (''VANCOUVER'', compiled vancouver_in_text),
     (''CSE'', compiled cse_in_text)]"

subsection \<open>The full-citation patterns of \<open>__init__\<close>\<close>

text \<open>
  The author fragments:
  \<^item> \<open>apa_au\<close> is \<^verbatim>\<open>[A-Za-z\-]+,\s[A-Z]\.(?:\s[A-Z]\.)?\<close>;
  \<^item> \<open>mla_au\<close> is \<^verbatim>\<open>[A-Za-z\-]+,\s[A-Za-z\s\-]+\<close>;
  \<^item> \<open>harvard_au\<close> is \<^verbatim>\<open>[A-Za-z\-]+,\s[A-Z]\.\<close>;
  \<^item> \<open>ieee_au\<close> is \<^verbatim>\<open>[A-Z]\.\s[A-Za-z\-]+\<close>;
  \<^item> \<open>vancouver_au\<close> is \<^verbatim>\<open>[A-Za-z\-]+\s[A-Z]{1,2}\<close>.
\<close>

definition apa_au :: regex where
  "apa_au = cat [name, Lit (CHR '',''), ws, upper1, Lit (CHR ''.''),
                 Opt (cat [ws, upper1, Lit (CHR ''.'')])]"

definition mla_au :: regex where
  "mla_au = cat [name, Lit (CHR '',''), ws, Plus (Cls [AZ, az, ClsSpace, Single (CHR ''-'')])]"

definition harvard_au :: regex where
  "harvard_au = cat [name, Lit (CHR '',''), ws, upper1, Lit (CHR ''.'')]"

definition ieee_au :: regex where
  "ieee_au = cat [upper1, Lit (CHR ''.''), ws, name]"

definition vancouver_au :: regex where
  "vancouver_au = cat [name, ws, Rep 1 2 upper1]"

text \<open>\<^verbatim>\<open>(?:\((?P<issue>\d+)\))?\<close>\<close>

definition issue_opt :: regex where
  "issue_opt = Opt (cat [Lit (CHR ''(''), Grp ''issue'' digits, Lit (CHR '')'')])"

text \<open>
  APA. All three patterns start with
  \<^verbatim>\<open>(?P<author>[A-Za-z\-]+,\s[A-Z]\.(?:\s[A-Z]\.)?)(?:,\s[A-Za-z\-]+,\s[A-Z]\.(?:\s[A-Z]\.)?)*(?:,?\s&\s[A-Za-z\-]+,\s[A-Z]\.(?:\s[A-Z]\.)?)?\s\(\<close>
  and go on with
  \<^verbatim>\<open>(?P<year>\d{4})\)\.\s(?P<title>.+?)\.\s(?P<publisher>[A-Za-z\s]+)\.\<close>
  \<^verbatim>\<open>(?P<year>\d{4})\)\.\s(?P<title>.+?)\.\s(?P<journal>.+?),\s(?P<volume>\d+)(?:\((?P<issue>\d+)\))?,\s(?P<pages>\d+-\d+)\.\<close>
  \<^verbatim>\<open>(?P<year>\d{4})(?:,\s[A-Za-z]+\s\d+)?\)\.\s(?P<title>.+?)\.\s(?:Recuperado|Retrieved)(?:\son|\sde)\s(?P<url>https?://[^\s]+)\<close>
\<close>

definition apa_authors :: regex where
  "apa_authors =
     cat [Grp ''author'' apa_au,
          Star (cat [Lit (CHR '',''), ws, apa_au]),
          Opt (cat [Opt (Lit (CHR '','')), ws, Lit (CHR ''&''), ws, apa_au]),
          ws, Lit (CHR ''('')]"

definition apa_full :: "regex list" where
  "apa_full =
    [cat [apa_authors, Grp ''year'' year4, lits '').'', ws, Grp ''title'' lazy_any,
          Lit (CHR ''.''), ws, Grp ''publisher'' words, Lit (CHR ''.'')],
     cat [apa_authors, Grp ''year'' year4, lits '').'', ws, Grp ''title'' lazy_any,
          Lit (CHR ''.''), ws, Grp ''journal'' lazy_any, Lit (CHR '',''), ws,
          Grp ''volume'' digits, issue_opt, Lit (CHR '',''), ws, Grp ''pages'' pages_span,
          Lit (CHR ''.'')],
     cat [apa_authors, Grp ''year'' year4,
          Opt (cat [Lit (CHR '',''), ws, Plus (Cls [AZ, az]), ws, digits]),
          lits '').'', ws, Grp ''title'' lazy_any, Lit (CHR ''.''), ws,
          Alt (lits ''Recuperado'') (lits ''Retrieved''),
          Alt (cat [ws, lits ''on'']) (cat [ws, lits ''de'']), ws, Grp ''url'' url]]"

text \<open>
  MLA. All three patterns start with
  \<^verbatim>\<open>(?P<author>[A-Za-z\-]+,\s[A-Za-z\s\-]+)(?:,\sand\s[A-Za-z\-]+,\s[A-Za-z\s\-]+)*\.\s\<close>
  and go on with
  \<^verbatim>\<open>(?P<title>.+?)\.\s(?P<publisher>[A-Za-z\s]+),\s(?P<year>\d{4})\.\<close>
  \<^verbatim>\<open>"(?P<title>.+?)\."\s(?P<journal>.+?),\svol\.\s(?P<volume>\d+)(?:,\sno\.\s(?P<issue>\d+))?,\s(?P<year>\d{4}),\spp\.\s(?P<pages>\d+-\d+)\.\<close>
  \<^verbatim>\<open>"(?P<title>.+?)\."\s(?P<site>.+?),\s(?P<date>[A-Za-z\.\s\d,]+),\s(?P<url>https?://[^\s]+)(?:\.\s(?:Accessed|Accedido)\s(?P<access_date>[A-Za-z\.\s\d,]+))?.\<close>
\<close>

definition mla_authors :: regex where
  "mla_authors =
     cat [Grp ''author'' mla_au,
          Star (cat [Lit (CHR '',''), ws, lits ''and'', ws, mla_au]),
          Lit (CHR ''.''), ws]"

definition mla_full :: "regex list" where
  "mla_full =
    [cat [mla_authors, Grp ''title'' lazy_any, Lit (CHR ''.''), ws, Grp ''publisher'' words,
          Lit (CHR '',''), ws, Grp ''year'' year4, Lit (CHR ''.'')],
     cat [mla_authors, dquote, Grp ''title'' lazy_any, Lit (CHR ''.''), dquote, ws,
          Grp ''journal'' lazy_any, Lit (CHR '',''), ws, lits ''vol.'', ws, Grp ''volume'' digits,
          Opt (cat [Lit (CHR '',''), ws, lits ''no.'', ws, Grp ''issue'' digits]),
          Lit (CHR '',''), ws, Grp ''year'' year4, Lit (CHR '',''), ws, lits ''pp.'', ws,
          Grp ''pages'' pages_span, Lit (CHR ''.'')],
     cat [mla_authors, dquote, Grp ''title'' lazy_any, Lit (CHR ''.''), dquote, ws,
          Grp ''site'' lazy_any, Lit (CHR '',''), ws, Grp ''date'' date_chars, Lit (CHR '',''), ws,
          Grp ''url'' url,
          Opt (cat [Lit (CHR ''.''), ws, Alt (lits ''Accessed'') (lits ''Accedido''), ws,
                    Grp ''access_date'' date_chars]),
          Dot]]"

text \<open>
  Chicago. All three patterns start with
  \<^verbatim>\<open>(?P<author>[A-Za-z\-]+,\s[A-Za-z\s\-]+)(?:,\s[A-Za-z\-]+,\s[A-Za-z\s\-]+)*(?:,\sand\s[A-Za-z\-]+,\s[A-Za-z\s\-]+)?\.\s\<close>
  and go on with
  \<^verbatim>\<open>(?P<title>.+?)\.\s(?P<city>[A-Za-z\s]+):\s(?P<publisher>[A-Za-z\s]+),\s(?P<year>\d{4})\.\<close>
  \<^verbatim>\<open>"(?P<title>.+?)\."\s(?P<journal>.+?)\s(?P<volume>\d+),\sno\.\s(?P<issue>\d+)\s\((?P<year>\d{4})\):\s(?P<pages>\d+-\d+)\.\<close>
  \<^verbatim>\<open>"(?P<title>.+?)\."\s(?P<site>.+?)\.\s(?P<date>[A-Za-z\.\s\d,]+)\.\s(?P<url>https?://[^\s]+)\.\<close>
\<close>

definition chicago_authors :: regex where
  "chicago_authors =
     cat [Grp ''author'' mla_au,
          Star (cat [Lit (CHR '',''), ws, mla_au]),
          Opt (cat [Lit (CHR '',''), ws, lits ''and'', ws, mla_au]),
          Lit (CHR ''.''), ws]"

definition chicago_full :: "regex list" where
  "chicago_full =
    [cat [chicago_authors, Grp ''title'' lazy_any, Lit (CHR ''.''), ws, Grp ''city'' words,
          Lit (CHR '':''), ws, Grp ''publisher'' words, Lit (CHR '',''), ws, Grp ''year'' year4,
          Lit (CHR ''.'')],
     cat [chicago_authors, dquote, Grp ''title'' lazy_any, Lit (CHR ''.''), dquote, ws,
          Grp ''journal'' lazy_any, ws, Grp ''volume'' digits, Lit (CHR '',''), ws, lits ''no.'',
          ws, Grp ''issue'' digits, ws, Lit (CHR ''(''), Grp ''year'' year4, lits ''):'', ws,
          Grp ''pages'' pages_span, Lit (CHR ''.'')],
     cat [chicago_authors, dquote, Grp ''title'' lazy_any, Lit (CHR ''.''), dquote, ws,
          Grp ''site'' lazy_any, Lit (CHR ''.''), ws, Grp ''date'' date_chars, Lit (CHR ''.''), ws,
          Grp ''url'' url, Lit (CHR ''.'')]]"

text \<open>
  Harvard. All three patterns start with
  \<^verbatim>\<open>(?P<author>[A-Za-z\-]+,\s[A-Z]\.)(?:,\s[A-Za-z\-]+,\s[A-Z]\.)*(?:\sand\s[A-Za-z\-]+,\s[A-Z]\.)?\s\((?P<year>\d{4})\)\s\<close>
  and go on with
  \<^verbatim>\<open>(?P<title>.+?)\.\s(?P<city>[A-Za-z\s]+):\s(?P<publisher>[A-Za-z\s]+)\.\<close>
  \<^verbatim>\<open>\'(?P<title>.+?)\',\s(?P<journal>.+?),\s(?P<volume>\d+)(?:\((?P<issue>\d+)\))?,\spp\.\s(?P<pages>\d+-\d+)\.\<close>
  \<^verbatim>\<open>(?P<title>.+?)\s\[Online\]\.\s(?:Available|Disponible)(?:\sat|\sen):\s(?P<url>https?://[^\s]+)\s\[(?:Accessed|Accedido):\s(?P<access_date>[A-Za-z\.\s\d,]+)\]\<close>
\<close>

definition harvard_authors :: regex where
  "harvard_authors =
     cat [Grp ''author'' harvard_au,
          Star (cat [Lit (CHR '',''), ws, harvard_au]),
          Opt (cat [ws, lits ''and'', ws, harvard_au]),
          ws, Lit (CHR ''(''), Grp ''year'' year4, Lit (CHR '')''), ws]"

definition harvard_full :: "regex list" where
  "harvard_full =
    [cat [harvard_authors, Grp ''title'' lazy_any, Lit (CHR ''.''), ws, Grp ''city'' words,
          Lit (CHR '':''), ws, Grp ''publisher'' words, Lit (CHR ''.'')],
     cat [harvard_authors, squote, Grp ''title'' lazy_any, squote, Lit (CHR '',''), ws,
          Grp ''journal'' lazy_any, Lit (CHR '',''), ws, Grp ''volume'' digits, issue_opt,
          Lit (CHR '',''), ws, lits ''pp.'', ws, Grp ''pages'' pages_span, Lit (CHR ''.'')],
     cat [harvard_authors, Grp ''title'' lazy_any, ws, lits ''[Online].'', ws,
          Alt (lits ''Available'') (lits ''Disponible''),
          Alt (cat [ws, lits ''at'']) (cat [ws, lits ''en'']), Lit (CHR '':''), ws,
          Grp ''url'' url, ws, Lit (CHR ''[''), Alt (lits ''Accessed'') (lits ''Accedido''),
          Lit (CHR '':''), ws, Grp ''access_date'' date_chars, Lit (CHR '']'')]]"

text \<open>
  IEEE. Both patterns start with
  \<^verbatim>\<open>\[(?P<number>\d+)\]\s(?P<author>[A-Z]\.\s[A-Za-z\-]+)(?:,\s[A-Z]\.\s[A-Za-z\-]+)*(?:,\sand\s[A-Z]\.\s[A-Za-z\-]+)?,\s\<close>
  and go on with
  \<^verbatim>\<open>"(?P<title>.+?)(?:,|")(?:\s(?P<journal>.+?),\svol\.\s(?P<volume>\d+),\sno\.\s(?P<issue>\d+),\spp\.\s(?P<pages>\d+-\d+),\s(?P<date>[A-Za-z\.\s\d,]+))?\<close>
  \<^verbatim>\<open>(?P<title>.+?)\.\s(?P<city>[A-Za-z\s]+):\s(?P<publisher>[A-Za-z\s]+),\s(?P<year>\d{4})(?:,\spp\.\s(?P<pages>\d+-\d+))?\<close>
\<close>

definition ieee_authors :: regex where
  "ieee_authors =
     cat [Lit (CHR ''[''), Grp ''number'' digits, Lit (CHR '']''), ws, Grp ''author'' ieee_au,
          Star (cat [Lit (CHR '',''), ws, ieee_au]),
          Opt (cat [Lit (CHR '',''), ws, lits ''and'', ws, ieee_au]),
          Lit (CHR '',''), ws]"

definition ieee_full :: "regex list" where
  "ieee_full =
    [cat [ieee_authors, dquote, Grp ''title'' lazy_any, Alt (Lit (CHR '','')) dquote,
          Opt (cat [ws, Grp ''journal'' lazy_any, Lit (CHR '',''), ws, lits ''vol.'', ws,
                    Grp ''volume'' digits, Lit (CHR '',''), ws, lits ''no.'', ws,
                    Grp ''issue'' digits, Lit (CHR '',''), ws, lits ''pp.'', ws,
                    Grp ''pages'' pages_span, Lit (CHR '',''), ws, Grp ''date'' date_chars])],
     cat [ieee_authors, Grp ''title'' lazy_any, Lit (CHR ''.''), ws, Grp ''city'' words,
          Lit (CHR '':''), ws, Grp ''publisher'' words, Lit (CHR '',''), ws, Grp ''year'' year4,
          Opt (cat [Lit (CHR '',''), ws, lits ''pp.'', ws, Grp ''pages'' pages_span])]]"

text \<open>
  Vancouver. Both patterns start with
  \<^verbatim>\<open>(?P<number>\d+)\.\s(?P<author>[A-Za-z\-]+\s[A-Z]{1,2})(?:,\s[A-Za-z\-]+\s[A-Z]{1,2})*(?:,\s[A-Za-z\-]+\s[A-Z]{1,2})?\.\s(?P<title>.+?)\<close>
  and go on with
  \<^verbatim>\<open>\.\s(?P<journal>.+?)\.\s(?P<year>\d{4});(?P<volume>\d+)(?:\((?P<issue>\d+)\))?:(?P<pages>\d+-\d+)\.\<close>
  \<^verbatim>\<open>(?:\.\s(?P<edition>\d+)(?:rd|nd|st|th)\sed)?(?:\.\s(?P<city>[A-Za-z\s]+):\s(?P<publisher>[A-Za-z\s]+);\s(?P<year>\d{4}))?\<close>
\<close>

definition vancouver_authors :: regex where
  "vancouver_authors =
     cat [Grp ''number'' digits, Lit (CHR ''.''), ws, Grp ''author'' vancouver_au,
          Star (cat [Lit (CHR '',''), ws, vancouver_au]),
          Opt (cat [Lit (CHR '',''), ws, vancouver_au]),
          Lit (CHR ''.''), ws, Grp ''title'' lazy_any]"

definition vancouver_full :: "regex list" where
  "vancouver_full =
    [cat [vancouver_authors, Lit (CHR ''.''), ws, Grp ''journal'' lazy_any, Lit (CHR ''.''), ws,
          Grp ''year'' year4, Lit (CHR '';''), Grp ''volume'' digits, issue_opt, Lit (CHR '':''),
          Grp ''pages'' pages_span, Lit (CHR ''.'')],
     cat [vancouver_authors,
          Opt (cat [Lit (CHR ''.''), ws, Grp ''edition'' digits,
                    alts [lits ''rd'', lits ''nd'', lits ''st'', lits ''th''], ws, lits ''ed'']),
          Opt (cat [Lit (CHR ''.''), ws, Grp ''city'' words, Lit (CHR '':''), ws,
                    Grp ''publisher'' words, Lit (CHR '';''), ws, Grp ''year'' year4])]]"

text \<open>
  CSE. Both patterns start with
  \<^verbatim>\<open>(?P<author>[A-Za-z\-]+\s[A-Z]{1,2})(?:,\s[A-Za-z\-]+\s[A-Z]{1,2})*\.\s(?P<year>\d{4})\.\s(?P<title>.+?)\.\s\<close>
  and go on with
  \<^verbatim>\<open>(?P<journal>.+?)\.\s(?P<volume>\d+)(?:\((?P<issue>\d+)\))?:(?P<pages>\d+-\d+)\.\<close>
  \<^verbatim>\<open>(?P<city>[A-Za-z\s]+)(?:\s\([A-Z]{2}\))?:\s(?P<publisher>[A-Za-z\s]+)(?:\.\s(?P<pages>\d+)\sp)?\<close>
\<close>

definition cse_authors :: regex where
  "cse_authors =
     cat [Grp ''author'' vancouver_au,
          Star (cat [Lit (CHR '',''), ws, vancouver_au]),
          Lit (CHR ''.''), ws, Grp ''year'' year4, Lit (CHR ''.''), ws, Grp ''title'' lazy_any,
          Lit (CHR ''.''), ws]"

definition cse_full :: "regex list" where
  "cse_full =
    [cat [cse_authors, Grp ''journal'' lazy_any, Lit (CHR ''.''), ws, Grp ''volume'' digits,
          issue_opt, Lit (CHR '':''), Grp ''pages'' pages_span, Lit (CHR ''.'')],
     cat [cse_authors, Grp ''city'' words,
          Opt (cat [ws, Lit (CHR ''(''), Rep 2 2 upper1, Lit (CHR '')'')]),
          Lit (CHR '':''), ws, Grp ''publisher'' words,
          Opt (cat [Lit (CHR ''.''), ws, Grp ''pages'' digits, ws, Lit (CHR ''p'')])]]"

definition default_full_citation_patterns :: "(string, pattern list) dict" where
  "default_full_citation_patterns =
    [(''APA'', compiled apa_full),
     (''MLA'', compiled mla_full),
     (''CHICAGO'', compiled chicago_full),
     (''HARVARD'', compiled harvard_full),
     (''IEEE'', compiled ieee_full),
     (''VANCOUVER'', compiled vancouver_full),
     (''CSE'', compiled cse_full)]"

subsection \<open>\<open>CitationStyleDetector\<close>\<close>

text \<open>
  The detector owns two tables of patterns, keyed by style name. The style names are
  strings, as in the source: a table loaded from a configuration file may hold any name.
\<close>

record detector =
  in_text_patterns :: "(string, pattern list) dict"
  full_citation_patterns :: "(string, pattern list) dict"

definition new_detector :: detector where
  "new_detector =
     \<lparr>in_text_patterns = default_in_text_patterns,
      full_citation_patterns = default_full_citation_patterns\<rparr>"

text \<open>The tables are dictionaries: no style name occurs twice in a table.\<close>

definition wf_detector :: "detector \<Rightarrow> bool" where
  "wf_detector det =
     (distinct (keys (in_text_patterns det)) \<and> distinct (keys (full_citation_patterns det)))"

definition no_citations :: string where
  "no_citations = ''No se detectaron citas''"

record style_counts =
  in_text :: "(string, nat) dict"
  full_citation :: "(string, nat) dict"

text \<open>\<open>{style: 0 for style in table}\<close>\<close>

definition zero_counts :: "(string, pattern list) dict \<Rightarrow> (string, nat) dict" where
  "zero_counts t = map (\<lambda>(style, patterns). (style, 0)) t"

text \<open>
  The inner loop of \<open>detect_citation_styles\<close>:
  \<open>for pattern in patterns: results[...][style] += len(re.findall(pattern, text, re.MULTILINE))\<close>.
  A pattern that does not compile raises when the loop comes to it.
\<close>

fun count_patterns :: "string \<Rightarrow> pattern list \<Rightarrow> string \<Rightarrow> (string, nat) dict
    \<Rightarrow> error + (string, nat) dict" where
  "count_patterns style [] text d = Inr d"
| "count_patterns style (pattern # ps) text d =
     (case pattern of
        Inl e \<Rightarrow> Inl e
      | Inr r \<Rightarrow>
          (case dict_add d style (length (re_findall r MULTILINE text)) of
             Inl e \<Rightarrow> Inl e
           | Inr d' \<Rightarrow> count_patterns style ps text d'))"

text \<open>The outer loop: \<open>for style, patterns in table.items()\<close>\<close>

fun count_styles :: "(string, pattern list) dict \<Rightarrow> string \<Rightarrow> (string, nat) dict
    \<Rightarrow> error + (string, nat) dict" where
  "count_styles [] text d = Inr d"
| "count_styles ((style, patterns) # items) text d =
     (case count_patterns style patterns text d of
        Inl e \<Rightarrow> Inl e
      | Inr d' \<Rightarrow> count_styles items text d')"

definition detect_citation_styles :: "detector \<Rightarrow> string \<Rightarrow> error + style_counts" where
  "detect_citation_styles det text =
     (case count_styles (in_text_patterns det) text (zero_counts (in_text_patterns det)) of
        Inl e \<Rightarrow> Inl e
      | Inr it \<Rightarrow>
          (case count_styles (full_citation_patterns det) text
                  (zero_counts (full_citation_patterns det)) of
             Inl e \<Rightarrow> Inl e
           | Inr fc \<Rightarrow> Inr \<lparr>in_text = it, full_citation = fc\<rparr>))"

text \<open>
  The first loop of \<open>identify_primary_style\<close>, over the styles of the in-text table: the
  two Chicago sub-styles are added into the one entry \<open>CHICAGO\<close>.
\<close>

fun combine_in_text :: "string list \<Rightarrow> (string, nat) dict \<Rightarrow> (string, nat) dict
    \<Rightarrow> error + (string, nat) dict" where
  "combine_in_text [] res comb = Inr comb"
| "combine_in_text (style # styles) res comb =
     (let target = (if style = ''CHICAGO_AUTHOR_DATE'' \<or> style = ''CHICAGO_NOTES''
                    then ''CHICAGO'' else style);
          comb1 = (if \<not> has_key comb target then AList.update target 0 comb else comb)
      in case dict_get res style of
           Inl e \<Rightarrow> Inl e
         | Inr n \<Rightarrow>
             (case dict_add comb1 target n of
                Inl e \<Rightarrow> Inl e
              | Inr comb2 \<Rightarrow> combine_in_text styles res comb2))"

text \<open>The second loop, over the styles of the full-citation table.\<close>

fun combine_full :: "string list \<Rightarrow> (string, nat) dict \<Rightarrow> (string, nat) dict
    \<Rightarrow> error + (string, nat) dict" where
  "combine_full [] res comb = Inr comb"
| "combine_full (style # styles) res comb =
     (let comb1 = (if \<not> has_key comb style then AList.update style 0 comb else comb)
      in case dict_get res style of
           Inl e \<Rightarrow> Inl e
         | Inr n \<Rightarrow>
             (case dict_add comb1 style n of
                Inl e \<Rightarrow> Inl e
              | Inr comb2 \<Rightarrow> combine_full styles res comb2))"

definition combined_results :: "detector \<Rightarrow> style_counts \<Rightarrow> error + (string, nat) dict" where
  "combined_results det results =
     (case combine_in_text (keys (in_text_patterns det)) (in_text results) [] of
        Inl e \<Rightarrow> Inl e
      | Inr comb \<Rightarrow> combine_full (keys (full_citation_patterns det)) (full_citation results) comb)"

definition identify_primary_style :: "detector \<Rightarrow> string \<Rightarrow> error + (string \<times> real)" where
  "identify_primary_style det text =
     (case detect_citation_styles det text of
        Inl e \<Rightarrow> Inl e
      | Inr results \<Rightarrow>
          (let total_in_text = sum_list (values_of (in_text results));
               total_full = sum_list (values_of (full_citation results));
               total = total_in_text + total_full
           in if total = 0 then Inr (no_citations, 0)
              else (case combined_results det results of
                      Inl e \<Rightarrow> Inl e
                    | Inr comb \<Rightarrow>
                        if comb = [] then Inr (no_citations, 0)
                        else (case max_key comb of
                                Inl e \<Rightarrow> Inl e
                              | Inr primary_style \<Rightarrow>
                                  (case dict_get comb primary_style of
                                     Inl e \<Rightarrow> Inl e
                                   | Inr c \<Rightarrow>
                                       (case py_div c total of
                                          Inl e \<Rightarrow> Inl e
                                        | Inr confidence \<Rightarrow>
                                            Inr (primary_style, confidence)))))))"

subsection \<open>\<open>_extract_citation_keys\<close> of the detector\<close>

text \<open>
  \<^verbatim>\<open>\((?P<author>[A-Za-z\-]+(?:\s[A-Za-z\-]+)?(?: et al\.)?),\s(?P<year>\d{4})\<close>
  \<^verbatim>\<open>(?P<author>[A-Za-z\-]+(?:\s[A-Za-z\-]+)?(?: et al\.)?)\s\((?P<year>\d{4})\<close>
  \<^verbatim>\<open>\((?P<author>[A-Za-z\-]+(?:\s[A-Za-z\-]+)?(?: et al\.)?)\s\d+\<close>
  \<^verbatim>\<open>(?P<author>[A-Za-z\-]+(?:\s[A-Za-z\-]+)?(?: et al\.)?)\s\(\d+\<close>
  \<^verbatim>\<open>\((?P<author>[A-Za-z\-]+(?:\s[A-Za-z\-]+)?(?: et al\.)?)\s(?P<year>\d{4})\<close>
\<close>

definition key_apa_parenthetical :: regex where
  "key_apa_parenthetical =
     cat [Lit (CHR ''(''), Grp ''author'' author_etal, Lit (CHR '',''), ws, Grp ''year'' year4]"

definition key_apa_narrative :: regex where
  "key_apa_narrative = cat [Grp ''author'' author_etal, ws, Lit (CHR ''(''), Grp ''year'' year4]"

definition key_mla_parenthetical :: regex where
  "key_mla_parenthetical = cat [Lit (CHR ''(''), Grp ''author'' author_etal, ws, digits]"

definition key_mla_narrative :: regex where
  "key_mla_narrative = cat [Grp ''author'' author_etal, ws, Lit (CHR ''(''), digits]"

definition key_chicago :: regex where
  "key_chicago = cat [Lit (CHR ''(''), Grp ''author'' author_etal, ws, Grp ''year'' year4]"

text \<open>
  \<open>match.group(name).strip()\<close>: a group that took no part in the match is \<open>None\<close>, and
  \<open>None.strip()\<close> raises.
\<close>

definition group_strip :: "match \<Rightarrow> string \<Rightarrow> error + string" where
  "group_strip m n = (case group m n of None \<Rightarrow> Inl AttributeError | Some v \<Rightarrow> Inr (strip v))"

text \<open>\<open>for match in matches: keys.append((author, year))\<close>\<close>

fun keys_author_year :: "match list \<Rightarrow> error + (string \<times> string) list" where
  "keys_author_year [] = Inr []"
| "keys_author_year (m # ms) =
     (case group_strip m ''author'' of
        Inl e \<Rightarrow> Inl e
      | Inr author \<Rightarrow>
          (case group_strip m ''year'' of
             Inl e \<Rightarrow> Inl e
           | Inr year \<Rightarrow>
               (case keys_author_year ms of
                  Inl e \<Rightarrow> Inl e
                | Inr ks \<Rightarrow> Inr ((author, year) # ks))))"

text \<open>\<open>for match in matches: keys.append((author, ""))\<close>\<close>

fun keys_author_only :: "match list \<Rightarrow> error + (string \<times> string) list" where
  "keys_author_only [] = Inr []"
| "keys_author_only (m # ms) =
     (case group_strip m ''author'' of
        Inl e \<Rightarrow> Inl e
      | Inr author \<Rightarrow>
          (case keys_author_only ms of
             Inl e \<Rightarrow> Inl e
           | Inr ks \<Rightarrow> Inr ((author, []) # ks)))"

text \<open>
  \<open>list(set(keys))\<close>: the distinct keys. Python leaves their order open; here they
  come in the order of their first occurrence, and nothing below depends on the order.
\<close>

definition list_of_set :: "'a list \<Rightarrow> 'a list" where
  "list_of_set xs = remdups xs"

definition extract_citation_keys :: "string \<Rightarrow> string \<Rightarrow> error + (string \<times> string) list" where
  "extract_citation_keys text style =
     (if style = ''APA'' \<or> style = ''HARVARD'' then
        (case keys_author_year (re_finditer key_apa_parenthetical no_flags text) of
           Inl e \<Rightarrow> Inl e
         | Inr k1 \<Rightarrow>
             (case keys_author_year (re_finditer key_apa_narrative no_flags text) of
                Inl e \<Rightarrow> Inl e
              | Inr k2 \<Rightarrow> Inr (list_of_set (k1 @ k2))))
      else if style = ''MLA'' then
        (case keys_author_only (re_finditer key_mla_parenthetical no_flags text) of
           Inl e \<Rightarrow> Inl e
         | Inr k1 \<Rightarrow>
             (case keys_author_only (re_finditer key_mla_narrative no_flags text) of
                Inl e \<Rightarrow> Inl e
              | Inr k2 \<Rightarrow> Inr (list_of_set (k1 @ k2))))
      else if style = ''CHICAGO'' then
        (case keys_author_year (re_finditer key_chicago no_flags text) of
           Inl e \<Rightarrow> Inl e
         | Inr k1 \<Rightarrow> Inr (list_of_set k1))
      else Inr (list_of_set []))"

subsection \<open>\<open>_find_bibliography_section\<close> and \<open>extract_citations\<close> of the detector\<close>

definition bibliografia :: string where
  "bibliografia = ''Bibliograf'' @ [CHR 0xED] @ ''a''"

definition referencias_bibliograficas :: string where
  "referencias_bibliograficas = ''Referencias bibliogr'' @ [CHR 0xE1] @ ''ficas''"

definition detector_headers :: "(string, string list) dict" where
  "detector_headers =
    [(''APA'', [''Referencias'', bibliografia, referencias_bibliograficas,
                ''References'', ''Bibliography'', ''Reference List'']),
     (''MLA'', [''Obras citadas'', bibliografia, ''Works Cited'', ''Bibliography'']),
     (''CHICAGO'', [bibliografia, ''Notas'', ''Bibliography'', ''Notes'', ''References'']),
     (''HARVARD'', [''Referencias'', bibliografia, ''References'', ''Bibliography'']),
     (''IEEE'', [''Referencias'', ''References'']),
     (''VANCOUVER'', [''Referencias'', bibliografia, ''References'', ''Bibliography'']),
     (''CSE'', [''Referencias'', bibliografia, ''References'', ''Bibliography'',
                ''Cited References''])]"

definition newline :: char where
  "newline = CHR 0x0A"

text \<open>\<^verbatim>\<open>(?i)(?:^|\n)\s*{header}\s*(?:\n|$)\<close>\<close>

definition header_line :: "string \<Rightarrow> regex" where
  "header_line header =
     cat [Alt Bol (Lit newline), Star ws, lits header, Star ws, Alt (Lit newline) Eol]"

text \<open>The first loop: the start of the first header that is found, in the order of the list.\<close>

fun find_header :: "string list \<Rightarrow> string \<Rightarrow> nat option" where
  "find_header [] text = None"
| "find_header (header # hs) text =
     (case re_search (header_line header) IGNORECASE text of
        Some m \<Rightarrow> Some (m_start m)
      | None \<Rightarrow> find_header hs text)"

text \<open>\<^verbatim>\<open>any(re.search(fr'(?i){h}', line) for h in style_headers)\<close>\<close>

definition any_header_in :: "string list \<Rightarrow> string \<Rightarrow> bool" where
  "any_header_in hs line = list_ex (\<lambda>h. re_search (lits h) IGNORECASE line \<noteq> None) hs"

text \<open>
  The \<open>while\<close> loop: from \<open>start_line\<close> back to the line after a blank line, to a line that
  holds a header, or to the first line. The indices are those of the source, all below
  the number of lines.
\<close>

fun walk_back :: "string list \<Rightarrow> string list \<Rightarrow> nat \<Rightarrow> nat" where
  "walk_back hs lines 0 = 0"
| "walk_back hs lines (Suc j) =
     (if strip (lines ! j) \<noteq> []
      then (if any_header_in hs (lines ! j) then j else walk_back hs lines j)
      else Suc j)"

text \<open>
  \<open>for pattern in patterns: if re.match(pattern, line)\<close>: whether a pattern matches at the
  start of the line. The patterns after the first one that matches are not compiled.
\<close>

fun line_matches :: "pattern list \<Rightarrow> string \<Rightarrow> error + bool" where
  "line_matches [] line = Inr False"
| "line_matches (pattern # ps) line =
     (case pattern of
        Inl e \<Rightarrow> Inl e
      | Inr r \<Rightarrow> if re_match r no_flags line \<noteq> None then Inr True else line_matches ps line)"

text \<open>\<open>for i in range(len(lines) - 1, 0, -1)\<close>: from the last line down to the second.\<close>

fun scan_lines :: "pattern list \<Rightarrow> string list \<Rightarrow> string list \<Rightarrow> nat \<Rightarrow> error + string" where
  "scan_lines patterns hs lines 0 = Inr []"
| "scan_lines patterns hs lines (Suc i) =
     (case line_matches patterns (lines ! Suc i) of
        Inl e \<Rightarrow> Inl e
      | Inr matched \<Rightarrow>
          if matched then Inr (join [newline] (drop (walk_back hs lines (Suc i)) lines))
          else scan_lines patterns hs lines i)"

definition find_bibliography_section :: "detector \<Rightarrow> string \<Rightarrow> string \<Rightarrow> error + string" where
  "find_bibliography_section det text style =
     (let style_headers = dict_get_default detector_headers style []
      in case find_header style_headers text of
           Some start_pos \<Rightarrow> Inr (drop start_pos text)
         | None \<Rightarrow>
             (let lines = split_on newline text
              in scan_lines (dict_get_default (full_citation_patterns det) style [])
                   style_headers lines (length lines - 1)))"

record citations =
  en_texto :: "string list"
  bibliograficas :: "string list"

text \<open>
  \<open>for pattern in patterns: for match in re.finditer(pattern, text, re.MULTILINE):
  out.append(match.group(0))\<close>, with \<open>out\<close> the matches so far.
\<close>

fun matched_texts :: "pattern list \<Rightarrow> string \<Rightarrow> string list \<Rightarrow> error + string list" where
  "matched_texts [] text out = Inr out"
| "matched_texts (pattern # ps) text out =
     (case pattern of
        Inl e \<Rightarrow> Inl e
      | Inr r \<Rightarrow> matched_texts ps text (out @ map m_text (re_finditer r MULTILINE text)))"

text \<open>\<^verbatim>\<open>^[A-Za-z\-]+,\<close>, \<^verbatim>\<open>^\[\d+\]\<close> and \<^verbatim>\<open>^\d+\.\<close>\<close>

definition starts_reference :: "string \<Rightarrow> bool" where
  "starts_reference line =
     (re_match (cat [Bol, name, Lit (CHR '','')]) no_flags line \<noteq> None
      \<or> re_match (cat [Bol, Lit (CHR ''[''), digits, Lit (CHR '']'')]) no_flags line \<noteq> None
      \<or> re_match (cat [Bol, digits, Lit (CHR ''.'')]) no_flags line \<noteq> None)"

text \<open>The line-by-line fallback: \<open>cur\<close> is \<open>current_ref\<close>, \<open>acc\<close> the references so far.\<close>

fun group_lines :: "string list \<Rightarrow> string \<Rightarrow> string list \<Rightarrow> string list" where
  "group_lines [] cur acc = (if cur \<noteq> [] then acc @ [cur] else acc)"
| "group_lines (l # ls) cur acc =
     (let line = strip l
      in if line = [] then
           (if cur \<noteq> [] then group_lines ls [] (acc @ [cur]) else group_lines ls cur acc)
         else if starts_reference line then
           group_lines ls line (if cur \<noteq> [] then acc @ [cur] else acc)
         else group_lines ls (cur @ '' '' @ line) acc)"

definition extract_in_text_of :: "detector \<Rightarrow> string \<Rightarrow> string \<Rightarrow> error + string list" where
  "extract_in_text_of det text primary_style =
     (if has_key (in_text_patterns det) primary_style then
        (case dict_get (in_text_patterns det) primary_style of
           Inl e \<Rightarrow> Inl e
         | Inr patterns \<Rightarrow>
             matched_texts
               (if primary_style = ''CHICAGO''
                then dict_get_default (in_text_patterns det) ''CHICAGO_AUTHOR_DATE'' []
                     @ dict_get_default (in_text_patterns det) ''CHICAGO_NOTES'' []
                else patterns)
               text [])
      else Inr [])"

definition extract_bibliography_of :: "detector \<Rightarrow> string \<Rightarrow> string \<Rightarrow> error + string list" where
  "extract_bibliography_of det text primary_style =
     (if has_key (full_citation_patterns det) primary_style then
        (case find_bibliography_section det text primary_style of
           Inl e \<Rightarrow> Inl e
         | Inr bibliography_section \<Rightarrow>
             if bibliography_section \<noteq> [] then
               (case dict_get (full_citation_patterns det) primary_style of
                  Inl e \<Rightarrow> Inl e
                | Inr patterns \<Rightarrow>
                    (case matched_texts patterns bibliography_section [] of
                       Inl e \<Rightarrow> Inl e
                     | Inr found \<Rightarrow>
                         if found = []
                         then Inr (group_lines (split_on newline bibliography_section) [] [])
                         else Inr found))
             else Inr [])
      else Inr [])"

definition extract_citations :: "detector \<Rightarrow> string \<Rightarrow> error + citations" where
  "extract_citations det text =
     (case identify_primary_style det text of
        Inl e \<Rightarrow> Inl e
      | Inr (primary_style, confidence) \<Rightarrow>
          if primary_style = no_citations then Inr \<lparr>en_texto = [], bibliograficas = []\<rparr>
          else (case extract_in_text_of det text primary_style of
                  Inl e \<Rightarrow> Inl e
                | Inr found_in_text \<Rightarrow>
                    (case extract_bibliography_of det text primary_style of
                       Inl e \<Rightarrow> Inl e
                     | Inr found_bibliography \<Rightarrow>
                         Inr \<lparr>en_texto = sorted_set found_in_text,
                              bibliograficas = sorted_set found_bibliography\<rparr>)))"

section \<open>The validator (\<open>validator.py\<close>)\<close>

subsection \<open>\<open>_extract_citation_keys\<close> of the validator\<close>

text \<open>
  The groups of these patterns are numbered, not named:
  \<^verbatim>\<open>\(([A-Za-z\-]+(?: et al\.)?),\s(\d{4})\<close>
  \<^verbatim>\<open>([A-Za-z\-]+(?: et al\.)?)\s\((\d{4})\<close>
  \<^verbatim>\<open>\(([A-Za-z\-]+(?:\s[A-Za-z\-]+)?)(?:\s&|\sy)\s([A-Za-z\-]+(?:\s[A-Za-z\-]+)?),\s(\d{4})\<close>
  \<^verbatim>\<open>\(([A-Za-z\-]+(?: et al\.)?)\s\d+\<close>
  \<^verbatim>\<open>\(([A-Za-z\-]+(?:\s[A-Za-z\-]+)?)\sand\s([A-Za-z\-]+(?:\s[A-Za-z\-]+)?)\s\d+\<close>
  \<^verbatim>\<open>\(([A-Za-z\-]+(?: et al\.)?)\s(\d{4})\<close>
\<close>

definition name_etal :: regex where
  "name_etal = cat [name, Opt (lits '' et al.'')]"

definition vkey_apa_parenthetical :: regex where
  "vkey_apa_parenthetical =
     cat [Lit (CHR ''(''), Grp ''1'' name_etal, Lit (CHR '',''), ws, Grp ''2'' year4]"

definition vkey_apa_narrative :: regex where
  "vkey_apa_narrative = cat [Grp ''1'' name_etal, ws, Lit (CHR ''(''), Grp ''2'' year4]"

definition vkey_apa_two_authors :: regex where
  "vkey_apa_two_authors =
     cat [Lit (CHR ''(''), Grp ''1'' name2,
          Alt (cat [ws, Lit (CHR ''&'')]) (cat [ws, Lit (CHR ''y'')]), ws, Grp ''2'' name2,
          Lit (CHR '',''), ws, Grp ''3'' year4]"

definition vkey_mla_page :: regex where
  "vkey_mla_page = cat [Lit (CHR ''(''), Grp ''1'' name_etal, ws, digits]"

definition vkey_mla_two_authors :: regex where
  "vkey_mla_two_authors =
     cat [Lit (CHR ''(''), Grp ''1'' name2, ws, lits ''and'', ws, Grp ''2'' name2, ws, digits]"

definition vkey_chicago :: regex where
  "vkey_chicago = cat [Lit (CHR ''(''), Grp ''1'' name_etal, ws, Grp ''2'' year4]"

text \<open>
  A value that is a string or \<open>None\<close>, as \<open>match.group(n)\<close> is, and how an f-string
  prints it.
\<close>

definition py_str :: "string option \<Rightarrow> string" where
  "py_str v = (case v of None \<Rightarrow> ''None'' | Some s \<Rightarrow> s)"

type_synonym citation_key = "string option \<times> string option"

text \<open>
  The body of the loop for one citation: the key it appends, if any. Each \<open>if match\<close>
  ends in \<open>continue\<close>, so the first pattern that is found decides.
\<close>

definition citation_key_of :: "string \<Rightarrow> string \<Rightarrow> citation_key option" where
  "citation_key_of style citation =
     (if style = ''APA'' \<or> style = ''HARVARD'' then
        (case re_search vkey_apa_parenthetical no_flags citation of
           Some m \<Rightarrow> Some (group m ''1'', group m ''2'')
         | None \<Rightarrow>
        (case re_search vkey_apa_narrative no_flags citation of
           Some m \<Rightarrow> Some (group m ''1'', group m ''2'')
         | None \<Rightarrow>
        (case re_search vkey_apa_two_authors no_flags citation of
           Some m \<Rightarrow>
             Some (Some (py_str (group m ''1'') @ '' & '' @ py_str (group m ''2'')), group m ''3'')
         | None \<Rightarrow> None)))
      else if style = ''MLA'' then
        (case re_search vkey_mla_page no_flags citation of
           Some m \<Rightarrow> Some (group m ''1'', Some [])
         | None \<Rightarrow>
        (case re_search vkey_mla_two_authors no_flags citation of
           Some m \<Rightarrow>
             Some (Some (py_str (group m ''1'') @ '' and '' @ py_str (group m ''2'')), Some [])
         | None \<Rightarrow> None))
      else if style = ''CHICAGO'' then
        (case re_search vkey_chicago no_flags citation of
           Some m \<Rightarrow> Some (group m ''1'', group m ''2'')
         | None \<Rightarrow> None)
      else None)"

fun validator_extract_citation_keys :: "string list \<Rightarrow> string \<Rightarrow> citation_key list" where
  "validator_extract_citation_keys [] style = []"
| "validator_extract_citation_keys (citation # cs) style =
     (case citation_key_of style citation of
        Some k \<Rightarrow> k # validator_extract_citation_keys cs style
      | None \<Rightarrow> validator_extract_citation_keys cs style)"

subsection \<open>\<open>_normalize_author_name\<close> and \<open>_match_author_names\<close>\<close>

text \<open>\<open>s.replace(old, new)\<close> for a one-character \<open>old\<close>.\<close>

definition replace_char :: "char \<Rightarrow> string \<Rightarrow> string \<Rightarrow> string" where
  "replace_char old new s = concat (map (\<lambda>c. if c = old then new else [c]) s)"

text \<open>\<open>s.split(sep)[0]\<close>: what comes before the first \<open>sep\<close>, all of \<open>s\<close> when there is none.\<close>

fun before_first :: "string \<Rightarrow> string \<Rightarrow> string" where
  "before_first sep [] = []"
| "before_first sep (x # xs) = (if startswith (x # xs) sep then [] else x # before_first sep xs)"

text \<open>\<open>s.split()\<close>: the runs of characters between white space.\<close>

fun split_when :: "(char \<Rightarrow> bool) \<Rightarrow> string \<Rightarrow> string list" where
  "split_when P [] = [[]]"
| "split_when P (x # xs) =
     (if P x then [] # split_when P xs
      else (case split_when P xs of [] \<Rightarrow> [[x]] | w # tl_ws \<Rightarrow> (x # w) # tl_ws))"

definition split_ws :: "string \<Rightarrow> string list" where
  "split_ws s = filter (\<lambda>w. w \<noteq> []) (split_when is_space s)"

text \<open>\<open>s.split()[0]\<close>\<close>

definition first_token :: "string \<Rightarrow> error + string" where
  "first_token s = (case split_ws s of [] \<Rightarrow> Inl IndexError | w # tl_ws \<Rightarrow> Inr w)"

text \<open>\<^verbatim>\<open>[.,;:]\<close> and \<^verbatim>\<open>\s+\<close>\<close>

definition punctuation :: regex where
  "punctuation = Cls [Single (CHR ''.''), Single (CHR '',''), Single (CHR '';''), Single (CHR '':'')]"

definition white_run :: regex where
  "white_run = Plus ws"

definition normalize_author_name :: "string \<Rightarrow> string" where
  "normalize_author_name author =
     (let normalized = lower author;
          normalized = re_sub punctuation no_flags [] normalized;
          normalized = replace_char (CHR ''&'') ''and'' normalized;
          normalized = strip (re_sub white_run no_flags '' '' normalized)
      in normalized)"

text \<open>\<open>s.split()[0] if " " in s else s\<close>\<close>

definition main_author :: "string \<Rightarrow> error + string" where
  "main_author s = (if contains s '' '' then first_token s else Inr s)"

definition match_author_names :: "string \<Rightarrow> string \<Rightarrow> error + bool" where
  "match_author_names author1 author2 =
     (let auth1_norm = normalize_author_name author1;
          auth2_norm = normalize_author_name author2
      in if auth1_norm = auth2_norm then Inr True
         else if contains auth1_norm ''et al''
                 \<and> contains auth2_norm (strip (before_first ''et al'' auth1_norm))
         then Inr True
         else if contains auth2_norm ''et al''
                 \<and> contains auth1_norm (strip (before_first ''et al'' auth2_norm))
         then Inr True
         else if contains auth2_norm auth1_norm \<or> contains auth1_norm auth2_norm then Inr True
         else (case main_author auth1_norm of
                 Inl e \<Rightarrow> Inl e
               | Inr main_author1 \<Rightarrow>
                   (case main_author auth2_norm of
                      Inl e \<Rightarrow> Inl e
                    | Inr main_author2 \<Rightarrow> Inr (main_author1 = main_author2))))"

section \<open>The extractor (\<open>extractor.py\<close>)\<close>

subsection \<open>The tables of \<open>_init_section_patterns\<close>\<close>

text \<open>
  Every header of \<open>bibliography_headers\<close> is a pattern source of the shape
  \<^verbatim>\<open>(?i)^Word$\<close>. The table keeps the words; \<open>header_source\<close> is the source string,
  whose length the extractor uses, and \<open>header_pattern\<close> the pattern it compiles to.
\<close>

definition referencias_citadas :: string where
  "referencias_citadas = ''Referencias citadas''"

definition bibliography_headers :: "(string, string list) dict" where
  "bibliography_headers =
    [(''APA'', [''Referencias'', referencias_bibliograficas, bibliografia, ''References'',
                ''Reference List'', ''Bibliography'']),
     (''MLA'', [''Obras citadas'', ''Works Cited'', bibliografia, ''Bibliography'']),
     (''CHICAGO'', [bibliografia, ''Bibliography'', ''Referencias'', ''References'', ''Notas'',
                    ''Notes'']),
     (''HARVARD'', [''Referencias'', referencias_bibliograficas, bibliografia, ''Reference List'',
                    ''References'']),
     (''IEEE'', [''Referencias'', ''References'']),
     (''VANCOUVER'', [''Referencias'', ''References'', bibliografia, ''Bibliography'']),
     (''CSE'', [''Referencias'', ''References'', ''Cited References'', referencias_citadas,
                bibliografia, ''Bibliography''])]"

definition header_source :: "string \<Rightarrow> string" where
  "header_source word = ''(?i)^'' @ word @ ''$''"

definition header_pattern :: "string \<Rightarrow> regex" where
  "header_pattern word = cat [Bol, lits word, Eol]"

text \<open>
  The extractor also pastes a header into a longer pattern, \<^verbatim>\<open>(?i)^{header}\s*$\<close> or
  \<^verbatim>\<open>(?i)^{header}\s*\n\<close>, whose source is then \<^verbatim>\<open>(?i)^(?i)^Word$\s*$\<close>: the second flag
  \<^verbatim>\<open>(?i)\<close> is not at the start of the expression. What \<open>re\<close> makes of such a source
  depends on the version of Python. Up to Python 3.10 it compiles it, with a warning, and
  the flag holds of the whole expression; from Python 3.11 it raises \<open>re.error\<close>. The
  version is a parameter of every operation that compiles such a pattern.
\<close>

datatype python = Before_3_11 | From_3_11

definition misplaced_flag :: "python \<Rightarrow> regex \<Rightarrow> pattern" where
  "misplaced_flag version r = (case version of Before_3_11 \<Rightarrow> Inr r | From_3_11 \<Rightarrow> Inl ReError)"

definition header_line_pattern :: "python \<Rightarrow> string \<Rightarrow> pattern" where
  "header_line_pattern version word =
     misplaced_flag version (cat [Bol, header_pattern word, Star ws, Eol])"

definition header_prefix_pattern :: "python \<Rightarrow> string \<Rightarrow> pattern" where
  "header_prefix_pattern version word =
     misplaced_flag version (cat [Bol, header_pattern word, Star ws, Lit newline])"

text \<open>
  The fragments of the extractor's in-text patterns: \<open>xname\<close> is
  \<^verbatim>\<open>[A-Za-z\u00C0-\u00FF\-]+\<close> (the source writes the two accented letters of the range
  themselves, not their escapes),
  \<open>xauthor\<close> is \<open>xname(?:\sxname)?(?: et al\.)?\<close>, and \<open>and_author\<close> is
  \<open>(?: and xname(?:\sxname)?)?\<close>.
\<close>

definition accented :: citem where
  "accented = Range (CHR 0xC0) (CHR 0xFF)"

definition xname :: regex where
  "xname = Plus (Cls [AZ, az, accented, Single (CHR ''-'')])"

definition xname2 :: regex where
  "xname2 = cat [xname, Opt (cat [ws, xname])]"

definition xauthor :: regex where
  "xauthor = cat [xname2, Opt (lits '' et al.'')]"

definition and_author :: regex where
  "and_author = Opt (cat [lits '' and '', xname2])"

text \<open>\<^verbatim>\<open>(?:xauthor(?:,| &| y) )?\<close>, \<^verbatim>\<open>(?:, p\.? \d+(?:-\d+)?)?\<close>, \<^verbatim>\<open>(?:, \d+(?:-\d+)?)?\<close> and
  \<^verbatim>\<open>(?::\s?\d+(?:-\d+)?)?\<close>\<close>

definition first_author_opt :: regex where
  "first_author_opt =
     Opt (cat [xauthor, alts [Lit (CHR '',''), lits '' &'', lits '' y''], Lit (CHR '' '')])"

definition xapa_pages_opt :: regex where
  "xapa_pages_opt = Opt (cat [lits '', p'', Opt (Lit (CHR ''.'')), Lit (CHR '' ''), page_range])"

definition xchicago_pages_opt :: regex where
  "xchicago_pages_opt = Opt (cat [lits '', '', page_range])"

definition xharvard_pages_opt :: regex where
  "xharvard_pages_opt = Opt (cat [Lit (CHR '':''), Opt ws, page_range])"

text \<open>
  APA:
  \<^verbatim>\<open>\((?:xauthor(?:,| &| y) )?xauthor, \d{4}(?:, p\.? \d+(?:-\d+)?)?\)\<close>
  \<^verbatim>\<open>(?:xauthor(?:,| &| y) )?xauthor \(\d{4}(?:, p\.? \d+(?:-\d+)?)?\)\<close>
  MLA:
  \<^verbatim>\<open>\(xauthor(?: and xname2)? \d+(?:-\d+)?\)\<close>
  \<^verbatim>\<open>xauthor(?: and xname2)? \(\d+(?:-\d+)?\)\<close>
  Chicago author-date:
  \<^verbatim>\<open>\(xauthor(?: and xname2)? \d{4}(?:, \d+(?:-\d+)?)?\)\<close>
  \<^verbatim>\<open>xauthor(?: and xname2)? \(\d{4}(?:, \d+(?:-\d+)?)?\)\<close>
  Chicago notes:
  \<^verbatim>\<open>^\d+\.\s.+\<close>
  \<^verbatim>\<open>(?:Ibid\.|Op\. cit\.|Loc\. cit\.)(?:,\s\d+(?:-\d+)?)?\<close>
  Harvard:
  \<^verbatim>\<open>\(xauthor(?: and xname2)?, \d{4}(?::\s?\d+(?:-\d+)?)?\)\<close>
  \<^verbatim>\<open>xauthor(?: and xname2)? \(\d{4}(?::\s?\d+(?:-\d+)?)?\)\<close>
  IEEE:
  \<^verbatim>\<open>\[\d+\]\<close>
  \<^verbatim>\<open>\[\d+(?:,\s*\d+)*\]\<close>
  Vancouver:
  \<^verbatim>\<open>\(\d+\)\<close>
  \<^verbatim>\<open>\[\d+\]\<close>
  \<^verbatim>\<open>(?:^|\s)[\u00B9\u00B2\u00B3\u2070-\u2079]+\<close>
  CSE:
  \<^verbatim>\<open>\(xauthor \d{4}\)\<close>
  \<^verbatim>\<open>xauthor \d{4}\<close>
  \<^verbatim>\<open>\[\d+\]\<close>
  \<^verbatim>\<open>\[xname2(?:,\s\d{4})?\]\<close>
\<close>

definition bracket_number :: regex where
  "bracket_number = cat [Lit (CHR ''[''), digits, Lit (CHR '']'')]"

definition extractor_in_text_patterns :: "(string, regex list) dict" where
  "extractor_in_text_patterns =
    [(''APA'',
       [cat [Lit (CHR ''(''), first_author_opt, xauthor, lits '', '', year4, xapa_pages_opt,
             Lit (CHR '')'')],
        cat [first_author_opt, xauthor, lits '' ('', year4, xapa_pages_opt, Lit (CHR '')'')]]),
     (''MLA'',
       [cat [Lit (CHR ''(''), xauthor, and_author, Lit (CHR '' ''), page_range, Lit (CHR '')'')],
        cat [xauthor, and_author, lits '' ('', page_range, Lit (CHR '')'')]]),
     (''CHICAGO_AUTHOR_DATE'',
       [cat [Lit (CHR ''(''), xauthor, and_author, Lit (CHR '' ''), year4, xchicago_pages_opt,
             Lit (CHR '')'')],
        cat [xauthor, and_author, lits '' ('', year4, xchicago_pages_opt, Lit (CHR '')'')]]),
     (''CHICAGO_NOTES'',
       [cat [Bol, digits, Lit (CHR ''.''), ws, Plus Dot],
        cat [alts [lits ''Ibid.'', lits ''Op. cit.'', lits ''Loc. cit.''],
             Opt (cat [Lit (CHR '',''), ws, page_range])]]),
     (''HARVARD'',
       [cat [Lit (CHR ''(''), xauthor, and_author, lits '', '', year4, xharvard_pages_opt,
             Lit (CHR '')'')],
        cat [xauthor, and_author, lits '' ('', year4, xharvard_pages_opt, Lit (CHR '')'')]]),
     (''IEEE'',
       [bracket_number,
        cat [Lit (CHR ''[''), digits, Star (cat [Lit (CHR '',''), Star ws, digits]),
             Lit (CHR '']'')]]),
     (''VANCOUVER'',
       [cat [Lit (CHR ''(''), digits, Lit (CHR '')'')],
        bracket_number,
        cat [Alt Bol ws, Plus (Cls [Single (CHR 0xB9), Single (CHR 0xB2), Single (CHR 0xB3)])]]),
     (''CSE'',
       [cat [Lit (CHR ''(''), xauthor, Lit (CHR '' ''), year4, Lit (CHR '')'')],
        cat [xauthor, Lit (CHR '' ''), year4],
        bracket_number,
        cat [Lit (CHR ''[''), xname2, Opt (cat [Lit (CHR '',''), ws, year4]), Lit (CHR '']'')]])]"

text \<open>
  The extractor may be given a \<open>CitationPatterns\<close> object; it then takes its in-text
  patterns from that object's table of compiled patterns (\<open>get_pattern(style, 'in_text')\<close>),
  which were compiled with \<open>re.MULTILINE\<close>, and otherwise from its own table, whose
  patterns it compiles without flags.
\<close>

record extractor =
  ext_patterns :: "(string, regex list) dict option"

subsection \<open>\<open>_is_valid_citation\<close>\<close>

text \<open>\<^verbatim>\<open>[.!?]$\<close>, \<^verbatim>\<open>^\[\d+\]|\d+\.\<close> and \<^verbatim>\<open>^[A-Za-z\u00C0-\u00FF\-]+,\<close>\<close>

definition terminal_punctuation :: regex where
  "terminal_punctuation =
     cat [Cls [Single (CHR ''.''), Single (CHR ''!''), Single (CHR ''?'')], Eol]"

definition numbered_start :: regex where
  "numbered_start = Alt (cat [Bol, bracket_number]) (cat [digits, Lit (CHR ''.'')])"

definition surname_comma :: regex where
  "surname_comma = cat [Bol, xname, Lit (CHR '','')]"

definition found :: "regex \<Rightarrow> string \<Rightarrow> bool" where
  "found r s = (re_search r no_flags s \<noteq> None)"

text \<open>The checks of an in-text citation that depend on the style.\<close>

definition in_text_marker_ok :: "string \<Rightarrow> string \<Rightarrow> bool" where
  "in_text_marker_ok citation style =
     (if style = ''APA'' then
        (if \<not> found year4 citation then False
         else if startswith citation ''('' \<and> \<not> endswith citation '')'' then False
         else True)
      else if style = ''MLA'' then
        (if CHR ''('' \<in> set citation \<and> CHR '')'' \<in> set citation \<and> \<not> found digits citation
         then False
         else True)
      else if style = ''CHICAGO_AUTHOR_DATE'' \<or> style = ''CHICAGO'' then
        (if \<not> found year4 citation then False
         else if startswith citation ''('' \<and> \<not> endswith citation '')'' then False
         else True)
      else if style = ''IEEE'' \<or> style = ''VANCOUVER'' then
        (if \<not> found digits citation then False else True)
      else True)"

definition is_valid_citation :: "string \<Rightarrow> string \<Rightarrow> string \<Rightarrow> bool" where
  "is_valid_citation citation style citation_type =
     (if length citation < 3 then False
      else if citation_type = ''in_text'' then
        (if \<not> in_text_marker_ok citation style then False
         else if 100 < length citation then False
         else True)
      else if citation_type = ''bibliography'' then
        (if \<not> found terminal_punctuation citation then False
         else if style \<noteq> ''MLA'' \<and> \<not> found year4 citation then False
         else if (style = ''IEEE'' \<or> style = ''VANCOUVER'') \<and> \<not> found numbered_start citation
         then False
         else if style \<in> set [''APA'', ''MLA'', ''CHICAGO'', ''HARVARD'']
                 \<and> \<not> found surname_comma citation
         then False
         else if length citation < 20 then False
         else if 1000 < length citation then False
         else True)
      else True)"

subsection \<open>\<open>_extract_main_text\<close> and \<open>_extract_bibliography_section\<close>\<close>

text \<open>
  The two loops over the headers, \<open>re.search(f"(?i)^{header}\\s*$", text, re.MULTILINE)\<close>:
  the first header that is found, with the match.
\<close>

fun first_header :: "python \<Rightarrow> string list \<Rightarrow> string \<Rightarrow> error + (string \<times> match) option" where
  "first_header version [] text = Inr None"
| "first_header version (header # hs) text =
     (case header_line_pattern version header of
        Inl e \<Rightarrow> Inl e
      | Inr r \<Rightarrow>
          (case re_search r IGNORECASE_MULTILINE text of
             Some m \<Rightarrow> Inr (Some (header, m))
           | None \<Rightarrow> first_header version hs text))"

text \<open>All headers of the table, style after style: the order of the nested loops.\<close>

definition all_headers :: "string list" where
  "all_headers = concat (map snd bibliography_headers)"

text \<open>\<^verbatim>\<open>\n[A-Za-z\u00C0-\u00FF\-]+,\s[A-Z]\.(?:\s[A-Z]\.)?\s\(\d{4}\)\.\<close>\<close>

definition apa_entry_start :: regex where
  "apa_entry_start =
     cat [Lit newline, xname, Lit (CHR '',''), ws, upper1, Lit (CHR ''.''),
          Opt (cat [ws, upper1, Lit (CHR ''.'')]), ws, Lit (CHR ''(''), year4, lits '').'']"

text \<open>\<^verbatim>\<open>\n[A-Za-z\u00C0-\u00FF\-]+,\s[A-Za-z\u00C0-\u00FF\-\s]+\.\s\<close>\<close>

definition mla_entry_start :: regex where
  "mla_entry_start =
     cat [Lit newline, xname, Lit (CHR '',''), ws,
          Plus (Cls [AZ, az, accented, Single (CHR ''-''), ClsSpace]), Lit (CHR ''.''), ws]"

text \<open>\<^verbatim>\<open>\n\[\d+\]\s[A-Z]\.\s[A-Za-z\u00C0-\u00FF\-]+\<close>\<close>

definition ieee_entry_start :: regex where
  "ieee_entry_start =
     cat [Lit newline, bracket_number, ws, upper1, Lit (CHR ''.''), ws, xname]"

text \<open>\<open>while start_pos > 0 and text[start_pos-1] != '\n': start_pos -= 1\<close>\<close>

fun line_start :: "string \<Rightarrow> nat \<Rightarrow> nat" where
  "line_start text 0 = 0"
| "line_start text (Suc j) = (if text ! j \<noteq> newline then line_start text j else Suc j)"

text \<open>
  \<open>while start_pos > 0: if text[start_pos:start_pos+2] == '\n\n': start_pos += 2; break;
  start_pos -= 1\<close>
\<close>

fun paragraph_start :: "string \<Rightarrow> nat \<Rightarrow> nat" where
  "paragraph_start text 0 = 0"
| "paragraph_start text (Suc j) =
     (if take 2 (drop (Suc j) text) = [newline, newline] then Suc j + 2
      else paragraph_start text j)"

definition entries_start :: "string \<Rightarrow> nat \<Rightarrow> nat" where
  "entries_start text pos = paragraph_start text (line_start text pos)"

definition extract_main_text :: "python \<Rightarrow> string \<Rightarrow> error + string" where
  "extract_main_text version text =
     (case first_header version all_headers text of
        Inl e \<Rightarrow> Inl e
      | Inr (Some (header, m)) \<Rightarrow> Inr (take (m_start m) text)
      | Inr None \<Rightarrow>
          (case re_search apa_entry_start no_flags text of
             Some m \<Rightarrow> Inr (take (entries_start text (m_start m)) text)
           | None \<Rightarrow> Inr text))"

text \<open>\<^verbatim>\<open>\n\s*[A-Z][A-Za-z\u00C0-\u00FF\s]+\s*\n\<close>\<close>

definition next_section_heading :: regex where
  "next_section_heading =
     cat [Lit newline, Star ws, upper1, Plus (Cls [AZ, az, accented, ClsSpace]), Star ws,
          Lit newline]"

text \<open>\<open>matches = list(re.finditer(pattern, text)); if matches: ... matches[0]\<close>\<close>

definition from_first_entry :: "regex \<Rightarrow> string \<Rightarrow> string" where
  "from_first_entry pattern text =
     (case re_finditer pattern no_flags text of
        [] \<Rightarrow> []
      | first_match # ms \<Rightarrow> drop (entries_start text (m_start first_match)) text)"

definition extract_bibliography_section :: "python \<Rightarrow> string \<Rightarrow> string \<Rightarrow> error + string" where
  "extract_bibliography_section version text style =
     (let headers = dict_get_default bibliography_headers style [];
          headers = (if headers = [] then all_headers else headers)
      in case first_header version headers text of
           Inl e \<Rightarrow> Inl e
         | Inr (Some (header, m)) \<Rightarrow>
             (let bibliography = drop (m_start m) text;
                  n = length (header_source header)
              in case re_search next_section_heading no_flags (drop n bibliography) of
                   Some next_section \<Rightarrow> Inr (take (n + m_start next_section) bibliography)
                 | None \<Rightarrow> Inr bibliography)
         | Inr None \<Rightarrow>
             if style = ''APA'' then Inr (from_first_entry apa_entry_start text)
             else if style = ''MLA'' then Inr (from_first_entry mla_entry_start text)
             else if style = ''IEEE'' then Inr (from_first_entry ieee_entry_start text)
             else Inr [])"

subsection \<open>\<open>_split_bibliography_entries\<close> and \<open>extract_bibliography_citations\<close>\<close>

text \<open>\<open>for header in headers: bib_section = re.sub(f"(?i)^{header}\\s*\n", "", bib_section)\<close>\<close>

fun remove_headers :: "python \<Rightarrow> string list \<Rightarrow> string \<Rightarrow> error + string" where
  "remove_headers version [] bib_section = Inr bib_section"
| "remove_headers version (header # hs) bib_section =
     (case header_prefix_pattern version header of
        Inl e \<Rightarrow> Inl e
      | Inr r \<Rightarrow> remove_headers version hs (re_sub r IGNORECASE [] bib_section))"

text \<open>
  The three loops over the lines differ in the pattern that starts a new entry:
  \<^verbatim>\<open>^[A-Za-z\u00C0-\u00FF\-]+,\<close>, \<^verbatim>\<open>^\[\d+\]|\d+\.\<close> and \<^verbatim>\<open>^\[\d+\]|\d+\.|\w+\s\w+\s\d{4}\.\<close>,
  each tried with \<open>re.match\<close>.
\<close>

definition cse_start :: regex where
  "cse_start =
     alts [cat [Bol, bracket_number], cat [digits, Lit (CHR ''.'')],
           cat [Plus (Cls [ClsWord]), ws, Plus (Cls [ClsWord]), ws, year4, Lit (CHR ''.'')]]"

fun entry_lines :: "regex \<Rightarrow> string list \<Rightarrow> string \<Rightarrow> string list \<Rightarrow> string list" where
  "entry_lines start [] current_entry entries =
     (if strip current_entry \<noteq> [] then entries @ [strip current_entry] else entries)"
| "entry_lines start (l # ls) current_entry entries =
     (let line = strip l
      in if line = [] then
           (if strip current_entry \<noteq> []
            then entry_lines start ls [] (entries @ [strip current_entry])
            else entry_lines start ls current_entry entries)
         else if re_match start no_flags line \<noteq> None then
           entry_lines start ls line
             (if strip current_entry \<noteq> [] then entries @ [strip current_entry] else entries)
         else entry_lines start ls (current_entry @ '' '' @ line) entries)"

text \<open>\<^verbatim>\<open>\n\s*\n\<close>\<close>

definition blank_line :: regex where
  "blank_line = cat [Lit newline, Star ws, Lit newline]"

definition split_bibliography_entries :: "python \<Rightarrow> string \<Rightarrow> string \<Rightarrow> error + string list" where
  "split_bibliography_entries version bib_section style =
     (case remove_headers version (dict_get_default bibliography_headers style []) bib_section of
        Inl e \<Rightarrow> Inl e
      | Inr bib_section \<Rightarrow>
          if style = ''APA'' \<or> style = ''MLA'' \<or> style = ''CHICAGO'' \<or> style = ''HARVARD'' then
            Inr (entry_lines surname_comma (split_on newline bib_section) [] [])
          else if style = ''IEEE'' \<or> style = ''VANCOUVER'' then
            Inr (entry_lines numbered_start (split_on newline bib_section) [] [])
          else if style = ''CSE'' then
            Inr (entry_lines cse_start (split_on newline bib_section) [] [])
          else Inr (filter (\<lambda>entry. entry \<noteq> [])
                      (map strip (re_split blank_line no_flags bib_section))))"

definition extract_bibliography_citations :: "python \<Rightarrow> string \<Rightarrow> string \<Rightarrow> error + string list" where
  "extract_bibliography_citations version text style =
     (case extract_bibliography_section version text style of
        Inl e \<Rightarrow> Inl e
      | Inr bib_section \<Rightarrow>
          if bib_section = [] then Inr []
          else (case split_bibliography_entries version bib_section style of
                  Inl e \<Rightarrow> Inl e
                | Inr entries \<Rightarrow>
                    Inr (filter (\<lambda>entry. entry \<noteq> []
                                    \<and> is_valid_citation entry style ''bibliography'')
                           (map strip entries))))"

subsection \<open>\<open>extract_in_text_citations\<close>\<close>

text \<open>The patterns to apply, each with the flags it was compiled with.\<close>

definition in_text_patterns_for :: "extractor \<Rightarrow> string \<Rightarrow> (regex \<times> re_flags) list" where
  "in_text_patterns_for ex style =
     (let chosen =
        (case ext_patterns ex of
           Some compiled_in_text \<Rightarrow>
             map (\<lambda>p. (p, MULTILINE)) (dict_get_default compiled_in_text style [])
         | None \<Rightarrow>
             map (\<lambda>p. (p, no_flags))
               (if style = ''CHICAGO''
                then dict_get_default extractor_in_text_patterns ''CHICAGO_AUTHOR_DATE'' []
                     @ dict_get_default extractor_in_text_patterns ''CHICAGO_NOTES'' []
                else dict_get_default extractor_in_text_patterns style []))
      in if chosen = []
         then map (\<lambda>p. (p, no_flags)) (concat (map snd extractor_in_text_patterns))
         else chosen)"

text \<open>
  The matches that pass the validity filter, pattern after pattern, each pattern's matches
  from left to right: the list \<open>citations\<close> before it is deduplicated.
\<close>

definition collected_in_text :: "python \<Rightarrow> extractor \<Rightarrow> string \<Rightarrow> string \<Rightarrow> error + string list" where
  "collected_in_text version ex text style =
     (case extract_main_text version text of
        Inl e \<Rightarrow> Inl e
      | Inr main_text \<Rightarrow>
          Inr (concat (map (\<lambda>(p, f).
                        filter (\<lambda>citation. is_valid_citation citation style ''in_text'')
                          (map m_text (re_finditer p f main_text)))
                      (in_text_patterns_for ex style))))"

text \<open>
  \<open>for citation in citations: if citation not in seen: seen.add(citation);
  unique_citations.append(citation)\<close>
\<close>

fun unique :: "string list \<Rightarrow> string list \<Rightarrow> string list \<Rightarrow> string list" where
  "unique [] seen unique_citations = unique_citations"
| "unique (citation # cs) seen unique_citations =
     (if citation \<notin> set seen
      then unique cs (citation # seen) (unique_citations @ [citation])
      else unique cs seen unique_citations)"

definition extract_in_text_citations :: "python \<Rightarrow> extractor \<Rightarrow> string \<Rightarrow> string
    \<Rightarrow> error + string list" where
  "extract_in_text_citations version ex text style =
     (case collected_in_text version ex text style of
        Inl e \<Rightarrow> Inl e
      | Inr citations \<Rightarrow> Inr (unique citations [] []))"

subsection \<open>\<open>_detect_citation_style\<close> and \<open>extract_all_citations\<close>\<close>

text \<open>\<open>style_counts[style] += n\<close> on a \<open>defaultdict(int)\<close>\<close>

definition counts_add :: "(string, nat) dict \<Rightarrow> string \<Rightarrow> nat \<Rightarrow> (string, nat) dict" where
  "counts_add d k n = AList.update k (dict_get_default d k 0 + n) d"

text \<open>
  \<open>for header in headers: if re.search(header, text, re.IGNORECASE | re.MULTILINE):
  style_counts[style] += 5\<close>
\<close>

fun header_votes :: "string \<Rightarrow> string list \<Rightarrow> string \<Rightarrow> (string, nat) dict
    \<Rightarrow> (string, nat) dict" where
  "header_votes style [] text d = d"
| "header_votes style (header # hs) text d =
     header_votes style hs text
       (if re_search (header_pattern header) IGNORECASE_MULTILINE text \<noteq> None
        then counts_add d style 5 else d)"

fun all_header_votes :: "(string, string list) dict \<Rightarrow> string \<Rightarrow> (string, nat) dict
    \<Rightarrow> (string, nat) dict" where
  "all_header_votes [] text d = d"
| "all_header_votes ((style, headers) # items) text d =
     all_header_votes items text (header_votes style headers text d)"

text \<open>
  \<open>for pattern in patterns: style_counts[style] += len(re.findall(pattern, text))\<close>
\<close>

fun pattern_votes :: "string \<Rightarrow> regex list \<Rightarrow> string \<Rightarrow> (string, nat) dict
    \<Rightarrow> (string, nat) dict" where
  "pattern_votes style [] text d = d"
| "pattern_votes style (p # ps) text d =
     pattern_votes style ps text (counts_add d style (length (re_findall p no_flags text)))"

fun all_pattern_votes :: "(string, regex list) dict \<Rightarrow> string \<Rightarrow> (string, nat) dict
    \<Rightarrow> (string, nat) dict" where
  "all_pattern_votes [] text d = d"
| "all_pattern_votes ((style, ps) # items) text d =
     all_pattern_votes items text (pattern_votes style ps text d)"

text \<open>
  The two \<open>pop\<close>s and the assignment that merge the Chicago sub-styles; the assignment
  replaces whatever \<open>CHICAGO\<close> held.
\<close>

definition merge_chicago :: "(string, nat) dict \<Rightarrow> (string, nat) dict" where
  "merge_chicago d =
     (if has_key d ''CHICAGO_AUTHOR_DATE'' \<or> has_key d ''CHICAGO_NOTES'' then
        (let author_date = dict_get_default d ''CHICAGO_AUTHOR_DATE'' 0;
             d1 = AList.delete ''CHICAGO_AUTHOR_DATE'' d;
             notes = dict_get_default d1 ''CHICAGO_NOTES'' 0;
             d2 = AList.delete ''CHICAGO_NOTES'' d1
         in AList.update ''CHICAGO'' (author_date + notes) d2)
      else d)"

text \<open>\<open>max(style_counts.items(), key=lambda x: x[1])\<close> on a dictionary that is not empty.\<close>

definition max_item :: "string \<times> nat \<Rightarrow> (string \<times> nat) list \<Rightarrow> string \<times> nat" where
  "max_item kv kvs = foldl (\<lambda>(bk, bv) (k', v'). if bv < v' then (k', v') else (bk, bv)) kv kvs"

definition detect_citation_style :: "string \<Rightarrow> string" where
  "detect_citation_style text =
     (let style_counts = all_header_votes bibliography_headers text [];
          style_counts = all_pattern_votes extractor_in_text_patterns text style_counts;
          style_counts = merge_chicago style_counts
      in case style_counts of
           [] \<Rightarrow> ''APA''
         | kv # kvs \<Rightarrow>
             (case max_item kv kvs of
                (max_style, n) \<Rightarrow> if 0 < n then max_style else ''APA''))"

text \<open>\<open>style\<close> is \<open>None\<close> or a string; \<open>not style\<close> holds of \<open>None\<close> and of the empty string.\<close>

definition extract_all_citations :: "python \<Rightarrow> extractor \<Rightarrow> string \<Rightarrow> string option
    \<Rightarrow> error + citations" where
  "extract_all_citations version ex text style =
     (let style = (case style of
                     None \<Rightarrow> detect_citation_style text
                   | Some s \<Rightarrow> if s = [] then detect_citation_style text else s)
      in case extract_in_text_citations version ex text style of
           Inl e \<Rightarrow> Inl e
         | Inr found_in_text \<Rightarrow>
             (case extract_bibliography_citations version text style of
                Inl e \<Rightarrow> Inl e
              | Inr found_bibliography \<Rightarrow>
                  Inr \<lparr>en_texto = found_in_text, bibliograficas = found_bibliography\<rparr>))"

section \<open>The catalog of patterns (\<open>patterns.py\<close>)\<close>


subsection \<open>\<open>_compile_patterns\<close>\<close>






subsection \<open>\<open>add_custom_pattern\<close>\<close>




section \<open>\<open>_load_custom_patterns\<close> of the detector\<close>

text \<open>
  The loader reads a JSON file and adds what it holds to the two tables of the detector
  without looking into it: whatever value the file gives for a style is stored. Here the
  tables hold the values as Python has them, a value of a built-in table being the list of
  its sources. \<open>JObject\<close> holds the items of a dictionary in their order, no key twice;
  \<open>JNumber\<close> stands for any number, no operation of the loader looking at its value.
\<close>

datatype json =
    JNull
  | JBool bool
  | JNumber int
  | JString string
  | JArray "json list"
  | JObject "(string \<times> json) list"











section \<open>Notions used to state the properties\<close>

text \<open>A catalog whose patterns all compile.\<close>

definition compiles :: "pattern \<Rightarrow> bool" where
  "compiles pattern = (case pattern of Inl e \<Rightarrow> False | Inr r \<Rightarrow> True)"

definition table_compiles :: "(string, pattern list) dict \<Rightarrow> bool" where
  "table_compiles t = list_all (\<lambda>(style, ps). list_all compiles ps) t"

definition all_compile :: "detector \<Rightarrow> bool" where
  "all_compile det =
     (table_compiles (in_text_patterns det) \<and> table_compiles (full_citation_patterns det))"

text \<open>
  The number of matches of a list of patterns in a text, as the detector counts them (a
  pattern that does not compile has none).
\<close>

definition pattern_count :: "pattern list \<Rightarrow> string \<Rightarrow> nat" where
  "pattern_count ps text =
     sum_list (map (\<lambda>pattern. case pattern of Inl e \<Rightarrow> 0
                               | Inr r \<Rightarrow> length (re_findall r MULTILINE text)) ps)"

definition style_totals :: "(string, pattern list) dict \<Rightarrow> string \<Rightarrow> (string, nat) dict" where
  "style_totals t text = map (\<lambda>(style, ps). (style, pattern_count ps text)) t"

text \<open>The entry of the combined scores that a style of the in-text table is added to.\<close>

definition merged_style :: "string \<Rightarrow> string" where
  "merged_style style =
     (if style = ''CHICAGO_AUTHOR_DATE'' \<or> style = ''CHICAGO_NOTES'' then ''CHICAGO'' else style)"

text \<open>All matches of all patterns of both tables: \<open>total\<close> in \<open>identify_primary_style\<close>.\<close>

definition pattern_count_total :: "detector \<Rightarrow> string \<Rightarrow> nat" where
  "pattern_count_total det text =
     sum_list (map snd (style_totals (in_text_patterns det) text))
     + sum_list (map snd (style_totals (full_citation_patterns det) text))"

text \<open>
  The detector after \<open>_load_custom_patterns\<close> has read the configuration
  \<^verbatim>\<open>{"in_text_patterns": {"No se detectaron citas": ["x"]}}\<close>: a new style, named as the
  sentinel is, with the one pattern \<open>x\<close>.
\<close>

definition sentinel_style_detector :: detector where
  "sentinel_style_detector =
     \<lparr>in_text_patterns = default_in_text_patterns @ [(no_citations, compiled [Lit (CHR ''x'')])],
      full_citation_patterns = default_full_citation_patterns\<rparr>"

text \<open>
  The detector after \<open>_load_custom_patterns\<close> has read the configuration
  \<^verbatim>\<open>{"in_text_patterns": {"X": ["("]}}\<close>: the source \<^verbatim>\<open>(\<close> lacks its closing parenthesis, and
  \<open>re\<close> raises \<open>re.error\<close> for it.
\<close>

definition malformed_pattern_detector :: detector where
  "malformed_pattern_detector =
     \<lparr>in_text_patterns = default_in_text_patterns @ [(''X'', [Inl ReError])],
      full_citation_patterns = default_full_citation_patterns\<rparr>"

text \<open>
  The detector after \<open>_load_custom_patterns\<close> has read the configuration
  \<^verbatim>\<open>{"in_text_patterns": {"X": ["x*"]}}\<close>: the pattern \<^verbatim>\<open>x*\<close> matches the empty string.
\<close>

definition star_pattern_detector :: detector where
  "star_pattern_detector =
     \<lparr>in_text_patterns = default_in_text_patterns @ [(''X'', compiled [Star (Lit (CHR ''x''))])],
      full_citation_patterns = default_full_citation_patterns\<rparr>"

text \<open>
  The detector after \<open>_load_custom_patterns\<close> has read the configuration
  \<^verbatim>\<open>{"full_citation_patterns": {"CHICAGO_NOTES": ["x"]}}\<close>: a full-citation style named as
  a sub-style is.
\<close>

definition notes_style_detector :: detector where
  "notes_style_detector =
     \<lparr>in_text_patterns = default_in_text_patterns,
      full_citation_patterns =
        default_full_citation_patterns @ [(''CHICAGO_NOTES'', compiled [Lit (CHR ''x'')])]\<rparr>"

text \<open>
  The detector after \<open>_load_custom_patterns\<close> has read the configuration
  \<^verbatim>\<open>{"in_text_patterns": {"CHICAGO": ["x"]}}\<close>: an in-text style named \<open>CHICAGO\<close> itself.
\<close>

definition chicago_style_detector :: detector where
  "chicago_style_detector =
     \<lparr>in_text_patterns = default_in_text_patterns @ [(''CHICAGO'', compiled [Lit (CHR ''x'')])],
      full_citation_patterns = default_full_citation_patterns\<rparr>"

text \<open>
  A syntactic check on a pattern: every match of it starts by consuming a character that
  is not white space. A pattern that passes has no match in a text of white space only.
\<close>

fun item_nonspace :: "citem \<Rightarrow> bool" where
  "item_nonspace (Single a) = (\<not> is_space a)"
| "item_nonspace (Range a b) = list_all (\<lambda>n. \<not> is_space (char_of n)) [cp a ..< Suc (cp b)]"
| "item_nonspace ClsSpace = False"
| "item_nonspace ClsDigit = True"
| "item_nonspace ClsWord = True"

fun zero_width :: "regex \<Rightarrow> bool" where
  "zero_width Bol = True"
| "zero_width Eol = True"
| "zero_width Eps = True"
| "zero_width r = False"

fun starts_nonspace :: "regex \<Rightarrow> bool" where
  "starts_nonspace (Lit a) = (\<not> is_space a)"
| "starts_nonspace (Cls its) = list_all item_nonspace its"
| "starts_nonspace (Seq a b) = (starts_nonspace a \<or> (zero_width a \<and> starts_nonspace b))"
| "starts_nonspace (Alt a b) = (starts_nonspace a \<and> starts_nonspace b)"
| "starts_nonspace (Plus a) = starts_nonspace a"
| "starts_nonspace (LazyPlus a) = starts_nonspace a"
| "starts_nonspace (Rep lo hi a) = (0 < lo \<and> starts_nonspace a)"
| "starts_nonspace (Grp n a) = starts_nonspace a"
| "starts_nonspace r = False"

text \<open>A catalog all of whose patterns compile and pass this check.\<close>

definition pattern_nonspace :: "pattern \<Rightarrow> bool" where
  "pattern_nonspace pattern = (case pattern of Inl e \<Rightarrow> False | Inr r \<Rightarrow> starts_nonspace r)"

definition table_nonspace :: "(string, pattern list) dict \<Rightarrow> bool" where
  "table_nonspace t = list_all (\<lambda>(style, ps). list_all pattern_nonspace ps) t"

definition catalog_nonspace :: "detector \<Rightarrow> bool" where
  "catalog_nonspace det =
     (table_nonspace (in_text_patterns det) \<and> table_nonspace (full_citation_patterns det))"

text \<open>The position of the first occurrence of \<open>x\<close> in \<open>xs\<close> (the length of \<open>xs\<close> if there is none).\<close>

definition first_index :: "'a \<Rightarrow> 'a list \<Rightarrow> nat" where
  "first_index x xs = length (takeWhile (\<lambda>y. y \<noteq> x) xs)"

text \<open>The elements of a list that are not in \<open>seen\<close>, each at its first occurrence only.\<close>

fun firsts :: "'a list \<Rightarrow> 'a list \<Rightarrow> 'a list" where
  "firsts seen [] = []"
| "firsts seen (x # xs) = (if x \<in> set seen then firsts seen xs else x # firsts (x # seen) xs)"

text \<open>
  The shape that the validity filter of the extractor asks of a bibliography entry of an
  author-first style, said of the string itself: it begins with a run of letters (of either
  case, the accented ones from U+00C0 to U+00FF among them) and hyphens, and a comma
  follows the run.
\<close>

definition is_surname_char :: "char \<Rightarrow> bool" where
  "is_surname_char c = (let n = cp c in
     (65 \<le> n \<and> n \<le> 90) \<or> (97 \<le> n \<and> n \<le> 122) \<or> (192 \<le> n \<and> n \<le> 255)
     \<or> c = CHR ''-'')"

definition starts_with_surname_comma :: "string \<Rightarrow> bool" where
  "starts_with_surname_comma e =
     (takeWhile is_surname_char e \<noteq> [] \<and> startswith (dropWhile is_surname_char e) '','')"

text \<open>
  The shapes that the specification names. A capitalized word followed by a comma: the run
  of letters begins with an upper-case letter. A number in square brackets, and a number
  followed by a full stop, at the start of the entry.
\<close>

definition is_upper :: "char \<Rightarrow> bool" where
  "is_upper c = (lower_char c \<noteq> c)"

definition starts_with_capitalized_word_comma :: "string \<Rightarrow> bool" where
  "starts_with_capitalized_word_comma e =
     (starts_with_surname_comma e \<and> is_upper (hd e))"

definition starts_with_bracket_number :: "string \<Rightarrow> bool" where
  "starts_with_bracket_number e =
     (startswith e ''['' \<and> takeWhile is_digit (tl e) \<noteq> []
      \<and> startswith (dropWhile is_digit (tl e)) '']'')"

definition starts_with_number_dot :: "string \<Rightarrow> bool" where
  "starts_with_number_dot e =
     (takeWhile is_digit e \<noteq> [] \<and> startswith (dropWhile is_digit e) ''.'')"













section \<open>The counts of \<open>detect_citation_styles\<close>\<close>

lemma update_update_same: "AList.update k v (AList.update k w d) = AList.update k v d"
  by (induction d) auto

lemma map_of_update_same: "map_of (AList.update k v d) k = Some v"
  by (simp add: update_conv')

lemma compiles_Inr: "compiles p \<Longrightarrow> \<exists>r. p = Inr r"
  by (cases p) (simp_all add: compiles_def)

lemma count_patterns_ok:
  "list_all compiles ps \<Longrightarrow> map_of d style = Some c \<Longrightarrow>
   count_patterns style ps text d = Inr (AList.update style (c + pattern_count ps text) d)"
proof (induction ps arbitrary: d c)
  case Nil
  then show ?case by (simp add: pattern_count_def update_triv)
next
  case (Cons p ps)
  from Cons.prems(1) obtain r where r: "p = Inr r"
    using compiles_Inr [of p] by auto
  let ?n = "length (re_findall r MULTILINE text)"
  have a: "dict_add d style ?n = Inr (AList.update style (c + ?n) d)"
    using Cons.prems(2) by (simp add: dict_add_def dict_get_def)
  have b: "map_of (AList.update style (c + ?n) d) style = Some (c + ?n)"
    by (rule map_of_update_same)
  have ps: "list_all compiles ps" using Cons.prems(1) by simp
  show ?case
    using Cons.IH [OF ps b] a r
    by (simp add: pattern_count_def update_update_same add.assoc)
qed

lemma count_patterns_compiles:
  "count_patterns style ps text d = Inr d' \<Longrightarrow> list_all compiles ps"
proof (induction ps arbitrary: d)
  case Nil
  then show ?case by simp
next
  case (Cons p ps)
  then show ?case
    by (cases p) (auto simp: compiles_def split: sum.splits)
qed

lemma count_styles_compiles:
  "count_styles items text d = Inr d' \<Longrightarrow> table_compiles items"
proof (induction items arbitrary: d)
  case Nil
  then show ?case by (simp add: table_compiles_def)
next
  case (Cons it items)
  obtain s ps where it: "it = (s, ps)" by (cases it)
  from Cons.prems it obtain d1 where d1: "count_patterns s ps text d = Inr d1"
    "count_styles items text d1 = Inr d'"
    by (auto split: sum.splits)
  from count_patterns_compiles [OF d1(1)] Cons.IH [OF d1(2)] it
  show ?case by (simp add: table_compiles_def)
qed

lemma update_as_map:
  "distinct (map fst d) \<Longrightarrow> map_of d k = Some c \<Longrightarrow>
   AList.update k v d = map (\<lambda>(k', v'). (k', if k' = k then v else v')) d"
proof (induction d)
  case Nil
  then show ?case by simp
next
  case (Cons a d)
  obtain k0 v0 where a: "a = (k0, v0)" by (cases a)
  show ?case
  proof (cases "k0 = k")
    case True
    then have "k \<notin> fst ` set d" using Cons.prems a by auto
    then have "map (\<lambda>(k', v'). (k', if k' = k then v else v')) d = d"
      by (induction d) auto
    then show ?thesis using True a by simp
  next
    case False
    then show ?thesis using Cons a by auto
  qed
qed

lemma count_styles_ok:
  "table_compiles items \<Longrightarrow>
   distinct (map fst items) \<Longrightarrow> distinct (map fst d) \<Longrightarrow> fst ` set items \<subseteq> fst ` set d \<Longrightarrow>
   count_styles items text d =
     Inr (map (\<lambda>(k, v). (k, v + (case map_of items k of None \<Rightarrow> 0
                                      | Some ps \<Rightarrow> pattern_count ps text))) d)"
proof (induction items arbitrary: d)
  case Nil
  then show ?case by simp
next
  case (Cons it items)
  obtain s ps where it: "it = (s, ps)" by (cases it)
  have tc: "list_all compiles ps" "table_compiles items"
    using Cons.prems(1) it by (simp_all add: table_compiles_def)
  have "s \<in> fst ` set d"
    using Cons.prems(4) it by auto
  then have "map_of d s \<noteq> None"
    by (simp add: map_of_eq_None_iff)
  then obtain c where c: "map_of d s = Some c"
    by auto
  let ?d = "AList.update s (c + pattern_count ps text) d"
  have cp: "count_patterns s ps text d = Inr ?d"
    by (rule count_patterns_ok [OF tc(1) c])
  have dd: "distinct (map fst ?d)"
    using Cons.prems(3) by (simp add: distinct_update)
  have "map fst ?d = map fst d"
    using \<open>s \<in> fst ` set d\<close> by (simp add: update_keys)
  then have keys: "fst ` set ?d = fst ` set d"
    by (metis set_map)
  have sub: "fst ` set items \<subseteq> fst ` set ?d"
    using Cons.prems(4) keys by auto
  have di: "distinct (map fst items)" and sn: "s \<notin> fst ` set items"
    using Cons.prems(2) it by auto
  have ih: "count_styles items text ?d =
     Inr (map (\<lambda>(k, v). (k, v + (case map_of items k of None \<Rightarrow> 0
                                      | Some ps \<Rightarrow> pattern_count ps text))) ?d)"
    by (rule Cons.IH [OF tc(2) di dd sub])
  have m: "?d = map (\<lambda>(k', v'). (k', if k' = s then c + pattern_count ps text else v')) d"
    by (rule update_as_map [OF Cons.prems(3) c])
  have sN: "map_of items s = None"
    using sn by (simp add: map_of_eq_None_iff)
  have "map (\<lambda>(k, v). (k, v + (case map_of items k of None \<Rightarrow> 0
                                      | Some ps \<Rightarrow> pattern_count ps text))) ?d
      = map (\<lambda>(k, v). (k, v + (case map_of (it # items) k of None \<Rightarrow> 0
                                      | Some ps \<Rightarrow> pattern_count ps text))) d"
  proof -
    have "\<And>k v. (k, v) \<in> set d \<Longrightarrow>
       (if k = s then c + pattern_count ps text else v) + (case map_of items k of None \<Rightarrow> 0
                                      | Some ps \<Rightarrow> pattern_count ps text)
       = v + (case map_of (it # items) k of None \<Rightarrow> 0 | Some ps \<Rightarrow> pattern_count ps text)"
      using c sN it Cons.prems(3) by (auto simp: map_of_eq_Some_iff dest: eq_key_imp_eq_value)
    then show ?thesis
      by (subst m) (auto simp: case_prod_unfold)
  qed
  then show ?case using cp ih it by simp
qed

lemma count_styles_zero:
  assumes "distinct (map fst t)" and tc: "table_compiles t"
  shows "count_styles t text (zero_counts t) = Inr (style_totals t text)"
proof -
  have k: "map fst (zero_counts t) = map fst t"
    by (simp add: zero_counts_def case_prod_unfold)
  have "count_styles t text (zero_counts t) =
     Inr (map (\<lambda>(k, v). (k, v + (case map_of t k of None \<Rightarrow> 0
                                      | Some ps \<Rightarrow> pattern_count ps text))) (zero_counts t))"
  proof (rule count_styles_ok)
    show "table_compiles t" by (rule tc)
    show "distinct (map fst t)" by (rule assms)
    show "distinct (map fst (zero_counts t))" using assms k by simp
    have "set (map fst t) \<subseteq> set (map fst (zero_counts t))" using k by simp
    then show "fst ` set t \<subseteq> fst ` set (zero_counts t)" by simp
  qed
  also have "map (\<lambda>(k, v). (k, v + (case map_of t k of None \<Rightarrow> 0
                                      | Some ps \<Rightarrow> pattern_count ps text))) (zero_counts t)
        = style_totals t text"
    using assms by (auto simp: zero_counts_def style_totals_def case_prod_unfold map_of_eq_Some_iff)
  finally show ?thesis .
qed

lemma detect_ok:
  "wf_detector det \<Longrightarrow> all_compile det \<Longrightarrow>
   detect_citation_styles det text =
     Inr \<lparr>in_text = style_totals (in_text_patterns det) text,
          full_citation = style_totals (full_citation_patterns det) text\<rparr>"
  by (simp add: detect_citation_styles_def wf_detector_def all_compile_def keys_def
      count_styles_zero)

lemma detect_compiles:
  "detect_citation_styles det text = Inr res \<Longrightarrow> all_compile det"
  unfolding detect_citation_styles_def all_compile_def
  by (auto split: sum.splits dest: count_styles_compiles)

section \<open>The combined scores of \<open>identify_primary_style\<close>\<close>

lemma sum_update_present:
  "distinct (map fst d) \<Longrightarrow> map_of d k = Some c \<Longrightarrow>
   sum_list (map snd (AList.update k (c + n) d)) = sum_list (map snd d) + (n::nat)"
proof (induction d)
  case Nil
  then show ?case by simp
next
  case (Cons a d)
  obtain k0 v0 where a: "a = (k0, v0)" by (cases a)
  show ?case
  proof (cases "k0 = k")
    case True
    then show ?thesis using Cons.prems a by simp
  next
    case False
    then show ?thesis using Cons a by simp
  qed
qed

lemma sum_update_absent:
  "map_of d k = None \<Longrightarrow> sum_list (map snd (AList.update k (0::nat) d)) = sum_list (map snd d)"
  by (induction d) (auto split: if_splits)

lemma update_key_set: "fst ` set (AList.update k v d) = insert k (fst ` set d)"
  by (induction d) auto

lemma ensure_key:
  fixes k :: "'k" and comb :: "('k, nat) dict"
  assumes "distinct (map fst comb)"
  defines "comb1 \<equiv> (if \<not> has_key comb k then AList.update k (0::nat) comb else comb)"
  shows "distinct (map fst comb1)"
    and "\<exists>c. map_of comb1 k = Some c"
    and "sum_list (map snd comb1) = sum_list (map snd comb)"
    and "fst ` set comb1 = insert k (fst ` set comb)"
proof -
  show "distinct (map fst comb1)"
    using assms by (simp add: distinct_update)
  show "\<exists>c. map_of comb1 k = Some c"
    unfolding comb1_def has_key_def by (auto simp: update_conv')
  show "sum_list (map snd comb1) = sum_list (map snd comb)"
    unfolding comb1_def has_key_def by (simp add: sum_update_absent)
  show "fst ` set comb1 = insert k (fst ` set comb)"
    unfolding comb1_def has_key_def
    by (auto simp: update_key_set map_of_eq_None_iff)
qed

lemma add_to_key:
  assumes d: "distinct (map fst comb)" and r: "map_of res style = Some n"
  shows "\<exists>comb2.
           (case dict_get res style of
              Inl e \<Rightarrow> Inl e
            | Inr n \<Rightarrow> dict_add (if \<not> has_key comb k then AList.update k 0 comb else comb) k n)
             = Inr comb2
         \<and> distinct (map fst comb2)
         \<and> sum_list (map snd comb2) = sum_list (map snd comb) + n
         \<and> fst ` set comb2 = insert k (fst ` set comb)"
proof -
  let ?c1 = "if \<not> has_key comb k then AList.update k 0 comb else comb"
  note e = ensure_key [OF d, of k]
  from e(2) obtain c where c: "map_of ?c1 k = Some c" by auto
  have k: "k \<in> fst ` set ?c1" using e(4) by simp
  have "map fst (AList.update k (c + n) ?c1) = map fst ?c1"
    using k by (simp only: update_keys set_map if_True)
  then have "fst ` set (AList.update k (c + n) ?c1) = fst ` set ?c1"
    by (metis set_map)
  then show ?thesis
    using r c e sum_update_present [OF e(1) c, of n]
    by (simp add: dict_get_def dict_add_def distinct_update)
qed

lemma combine_in_text_Cons:
  "combine_in_text (s # styles) res comb =
     (case (case dict_get res s of Inl e \<Rightarrow> Inl e
            | Inr n \<Rightarrow> dict_add (if \<not> has_key comb (merged_style s)
                                   then AList.update (merged_style s) 0 comb else comb)
                          (merged_style s) n) of
        Inl e \<Rightarrow> Inl e
      | Inr comb2 \<Rightarrow> combine_in_text styles res comb2)"
  by (simp add: Let_def merged_style_def split: sum.splits)

lemma combine_full_Cons:
  "combine_full (s # styles) res comb =
     (case (case dict_get res s of Inl e \<Rightarrow> Inl e
            | Inr n \<Rightarrow> dict_add (if \<not> has_key comb s then AList.update s 0 comb else comb) s n) of
        Inl e \<Rightarrow> Inl e
      | Inr comb2 \<Rightarrow> combine_full styles res comb2)"
  by (simp add: Let_def split: sum.splits)

lemma combine_in_text_ok:
  "distinct (map fst comb) \<Longrightarrow> set styles \<subseteq> fst ` set res \<Longrightarrow>
   \<exists>comb'. combine_in_text styles res comb = Inr comb'
     \<and> distinct (map fst comb')
     \<and> sum_list (map snd comb') =
         sum_list (map snd comb) + sum_list (map (\<lambda>s. dict_get_default res s 0) styles)
     \<and> fst ` set comb' = fst ` set comb \<union> merged_style ` set styles"
proof (induction styles arbitrary: comb)
  case Nil
  then show ?case by simp
next
  case (Cons s styles)
  have "map_of res s \<noteq> None"
    using Cons.prems(2) by (simp add: map_of_eq_None_iff)
  then obtain n where n: "map_of res s = Some n" by auto
  from add_to_key [OF Cons.prems(1) n, of "merged_style s"]
  obtain comb2 where c2:
    "(case dict_get res s of Inl e \<Rightarrow> Inl e
      | Inr n \<Rightarrow> dict_add (if \<not> has_key comb (merged_style s)
                             then AList.update (merged_style s) 0 comb else comb) (merged_style s) n)
       = Inr comb2"
    "distinct (map fst comb2)"
    "sum_list (map snd comb2) = sum_list (map snd comb) + n"
    "fst ` set comb2 = insert (merged_style s) (fst ` set comb)"
    by blast
  have sub: "set styles \<subseteq> fst ` set res" using Cons.prems(2) by simp
  from Cons.IH [OF c2(2) sub] obtain comb' where c':
    "combine_in_text styles res comb2 = Inr comb'"
    "distinct (map fst comb')"
    "sum_list (map snd comb') =
       sum_list (map snd comb2) + sum_list (map (\<lambda>s. dict_get_default res s 0) styles)"
    "fst ` set comb' = fst ` set comb2 \<union> merged_style ` set styles"
    by blast
  have step: "combine_in_text (s # styles) res comb = combine_in_text styles res comb2"
    by (simp only: combine_in_text_Cons c2(1) sum.case)
  show ?case
    using step c' c2 n by (auto simp: dict_get_default_def)
qed

lemma combine_full_ok:
  "distinct (map fst comb) \<Longrightarrow> set styles \<subseteq> fst ` set res \<Longrightarrow>
   \<exists>comb'. combine_full styles res comb = Inr comb'
     \<and> distinct (map fst comb')
     \<and> sum_list (map snd comb') =
         sum_list (map snd comb) + sum_list (map (\<lambda>s. dict_get_default res s 0) styles)
     \<and> fst ` set comb' = fst ` set comb \<union> set styles"
proof (induction styles arbitrary: comb)
  case Nil
  then show ?case by simp
next
  case (Cons s styles)
  have "map_of res s \<noteq> None"
    using Cons.prems(2) by (simp add: map_of_eq_None_iff)
  then obtain n where n: "map_of res s = Some n" by auto
  from add_to_key [OF Cons.prems(1) n, of s]
  obtain comb2 where c2:
    "(case dict_get res s of Inl e \<Rightarrow> Inl e
      | Inr n \<Rightarrow> dict_add (if \<not> has_key comb s then AList.update s 0 comb else comb) s n)
       = Inr comb2"
    "distinct (map fst comb2)"
    "sum_list (map snd comb2) = sum_list (map snd comb) + n"
    "fst ` set comb2 = insert s (fst ` set comb)"
    by blast
  have sub: "set styles \<subseteq> fst ` set res" using Cons.prems(2) by simp
  from Cons.IH [OF c2(2) sub] obtain comb' where c':
    "combine_full styles res comb2 = Inr comb'"
    "distinct (map fst comb')"
    "sum_list (map snd comb') =
       sum_list (map snd comb2) + sum_list (map (\<lambda>s. dict_get_default res s 0) styles)"
    "fst ` set comb' = fst ` set comb2 \<union> set styles"
    by blast
  have step: "combine_full (s # styles) res comb = combine_full styles res comb2"
    by (simp only: combine_full_Cons c2(1) sum.case)
  show ?case
    using step c' c2 n by (auto simp: dict_get_default_def)
qed

lemma values_by_keys:
  "distinct (map fst d) \<Longrightarrow> map (\<lambda>k. dict_get_default d k (0::nat)) (map fst d) = map snd d"
  by (induction d) (auto simp: dict_get_default_def image_iff)

section \<open>The result of \<open>identify_primary_style\<close>\<close>

lemma max_fold:
  "foldl (\<lambda>(bk, bv) (k', v'). if bv < v' then (k', v') else (bk, bv)) (k0, v0) kvs = (k, v) \<Longrightarrow>
   (k, v) \<in> set ((k0, v0) # kvs) \<and> (\<forall>(k', v') \<in> set ((k0, v0) # kvs). v' \<le> (v::nat))"
proof (induction kvs arbitrary: k0 v0)
  case Nil
  then show ?case by simp
next
  case (Cons a kvs)
  obtain k1 v1 where a: "a = (k1, v1)" by (cases a)
  show ?case
  proof (cases "v0 < v1")
    case True
    with Cons.prems a have
      "foldl (\<lambda>(bk, bv) (k', v'). if bv < v' then (k', v') else (bk, bv)) (k1, v1) kvs = (k, v)"
      by simp
    from Cons.IH [OF this] True a show ?thesis by auto
  next
    case False
    with Cons.prems a have
      "foldl (\<lambda>(bk, bv) (k', v'). if bv < v' then (k', v') else (bk, bv)) (k0, v0) kvs = (k, v)"
      by simp
    from Cons.IH [OF this] False a show ?thesis by auto
  qed
qed

lemma max_key_ok:
  assumes ne: "comb \<noteq> []" and d: "distinct (map fst comb)"
  shows "\<exists>k v. max_key comb = Inr k \<and> dict_get comb k = Inr v \<and> (k, v) \<in> set comb
           \<and> (\<forall>(k', v') \<in> set comb. v' \<le> v)"
proof -
  from ne obtain k0 v0 kvs where c: "comb = (k0, v0) # kvs"
    by (cases comb) auto
  obtain k v where f:
    "foldl (\<lambda>(bk, bv) (k', v'). if bv < v' then (k', v') else (bk, bv)) (k0, v0) kvs = (k, v::nat)"
    by (cases "foldl (\<lambda>(bk, bv) (k', v'). if bv < v' then (k', v') else (bk, bv)) (k0, v0) kvs")
  from max_fold [OF f] have m: "(k, v) \<in> set comb" "\<forall>(k', v') \<in> set comb. v' \<le> v"
    using c by auto
  have "map_of comb k = Some v"
    using m(1) d by (simp add: map_of_eq_Some_iff)
  then show ?thesis
    using c f m by (auto simp: dict_get_def)
qed

lemma sum_list_pos_member:
  "0 < sum_list (map snd d) \<Longrightarrow> \<exists>(k, v::nat) \<in> set d. 0 < v"
  by (induction d) auto

lemma member_le_sum:
  "(k, v::nat) \<in> set d \<Longrightarrow> v \<le> sum_list (map snd d)"
  by (induction d) auto

lemma style_totals_keys: "map fst (style_totals t text) = map fst t"
  by (simp add: style_totals_def case_prod_unfold)

lemma combined_ok:
  fixes subject :: string
  assumes wf: "wf_detector det"
  defines "res \<equiv> \<lparr>in_text = style_totals (in_text_patterns det) subject,
                    full_citation = style_totals (full_citation_patterns det) subject\<rparr>"
  shows "\<exists>comb. combined_results det res = Inr comb
     \<and> distinct (map fst comb)
     \<and> sum_list (map snd comb) =
          sum_list (values_of (in_text res)) + sum_list (values_of (full_citation res))
     \<and> fst ` set comb = merged_style ` set (keys (in_text_patterns det))
                          \<union> set (keys (full_citation_patterns det))"
proof -
  let ?it = "style_totals (in_text_patterns det) subject"
  let ?fc = "style_totals (full_citation_patterns det) subject"
  have d1: "distinct (map fst ?it)" and d2: "distinct (map fst ?fc)"
    using wf by (simp_all add: wf_detector_def keys_def style_totals_keys)
  have s1: "set (keys (in_text_patterns det)) \<subseteq> fst ` set ?it"
    by (metis keys_def style_totals_keys set_map subset_refl)
  have s2: "set (keys (full_citation_patterns det)) \<subseteq> fst ` set ?fc"
    by (metis keys_def style_totals_keys set_map subset_refl)
  from combine_in_text_ok [OF _ s1, of "[]"] obtain c1 where c1:
    "combine_in_text (keys (in_text_patterns det)) ?it [] = Inr c1"
    "distinct (map fst c1)"
    "sum_list (map snd c1) =
       sum_list (map (\<lambda>s. dict_get_default ?it s 0) (keys (in_text_patterns det)))"
    "fst ` set c1 = merged_style ` set (keys (in_text_patterns det))"
    by auto
  from combine_full_ok [OF c1(2) s2] obtain c2 where c2:
    "combine_full (keys (full_citation_patterns det)) ?fc c1 = Inr c2"
    "distinct (map fst c2)"
    "sum_list (map snd c2) = sum_list (map snd c1)
       + sum_list (map (\<lambda>s. dict_get_default ?fc s 0) (keys (full_citation_patterns det)))"
    "fst ` set c2 = fst ` set c1 \<union> set (keys (full_citation_patterns det))"
    by blast
  have v1: "map (\<lambda>s. dict_get_default ?it s 0) (keys (in_text_patterns det)) = map snd ?it"
    using values_by_keys [OF d1] by (simp add: keys_def style_totals_keys)
  have v2: "map (\<lambda>s. dict_get_default ?fc s 0) (keys (full_citation_patterns det)) = map snd ?fc"
    using values_by_keys [OF d2] by (simp add: keys_def style_totals_keys)
  show ?thesis
    using c1 c2 v1 v2 by (simp add: combined_results_def res_def values_of_def)
qed

lemma identify_zero:
  assumes "detect_citation_styles det text = Inr res"
    and "sum_list (values_of (in_text res)) + sum_list (values_of (full_citation res)) = 0"
  shows "identify_primary_style det text = Inr (no_citations, 0)"
  unfolding identify_primary_style_def
  by (simp only: assms Let_def sum.case if_True simp_thms)

lemma identify_nonzero:
  assumes "detect_citation_styles det text = Inr res"
    and "sum_list (values_of (in_text res)) + sum_list (values_of (full_citation res)) = n"
    and "n \<noteq> 0" and "combined_results det res = Inr comb" and "comb \<noteq> []"
    and "max_key comb = Inr k" and "dict_get comb k = Inr v"
  shows "identify_primary_style det text = Inr (k, real v / real n)"
  unfolding identify_primary_style_def
  by (simp only: assms Let_def sum.case if_False py_div_def simp_thms)

lemma identify_compiles:
  "identify_primary_style det text = Inr r \<Longrightarrow> all_compile det"
  unfolding identify_primary_style_def
  by (auto split: sum.splits dest: detect_compiles)

lemma identify_cases:
  assumes wf: "wf_detector det" and ac: "all_compile det"
  shows "(pattern_count_total det text = 0 \<and> identify_primary_style det text = Inr (no_citations, 0))
       \<or> (\<exists>s v. 0 < pattern_count_total det text
            \<and> identify_primary_style det text = Inr (s, real v / real (pattern_count_total det text))
            \<and> 0 < v \<and> v \<le> pattern_count_total det text
            \<and> s \<in> merged_style ` set (keys (in_text_patterns det))
                   \<union> set (keys (full_citation_patterns det)))"
proof -
  let ?res = "\<lparr>in_text = style_totals (in_text_patterns det) text,
               full_citation = style_totals (full_citation_patterns det) text\<rparr>"
  let ?total = "pattern_count_total det text"
  have det: "detect_citation_styles det text = Inr ?res"
    by (rule detect_ok [OF wf ac])
  have tot: "?total = sum_list (values_of (in_text ?res)) + sum_list (values_of (full_citation ?res))"
    by (simp add: pattern_count_total_def values_of_def)
  show ?thesis
  proof (cases "?total = 0")
    case True
    then show ?thesis
      using identify_zero [OF det] tot by simp
  next
    case False
    from combined_ok [OF wf, of "text"] obtain comb where comb:
      "combined_results det ?res = Inr comb"
      "distinct (map fst comb)"
      "sum_list (map snd comb) = ?total"
      "fst ` set comb = merged_style ` set (keys (in_text_patterns det))
                          \<union> set (keys (full_citation_patterns det))"
      using tot by auto
    have ne: "comb \<noteq> []" using comb(3) False by auto
    from max_key_ok [OF ne comb(2)] obtain k v where kv:
      "max_key comb = Inr k" "dict_get comb k = Inr v" "(k, v) \<in> set comb"
      "\<forall>(k', v') \<in> set comb. v' \<le> v"
      by blast
    have le: "v \<le> ?total"
      using member_le_sum [OF kv(3)] comb(3) by simp
    have "0 < sum_list (map snd comb)" using comb(3) False by simp
    from sum_list_pos_member [OF this] kv(4) have pos: "0 < v" by force
    have k: "k \<in> fst ` set comb" using kv(3) by force
    have "identify_primary_style det text = Inr (k, real v / real ?total)"
      by (rule identify_nonzero [OF det tot [symmetric] False comb(1) ne kv(1,2)])
    then show ?thesis
      using False pos le k comb(4) by auto
  qed
qed

section \<open>The combined score of one style\<close>

lemma default_update:
  "dict_get_default (AList.update k v d) k' (0::nat) = (if k' = k then v else dict_get_default d k' 0)"
  by (simp add: dict_get_default_def update_conv')

lemma step_value:
  assumes "map_of res style = Some n"
  shows "\<exists>comb2.
           (case dict_get res style of
              Inl e \<Rightarrow> Inl e
            | Inr n \<Rightarrow> dict_add (if \<not> has_key comb k then AList.update k 0 comb else comb) k n)
             = Inr comb2
         \<and> (\<forall>k'. dict_get_default comb2 k' 0
                  = dict_get_default comb k' 0 + (if k' = k then n else 0))"
proof (cases "map_of comb k")
  case None
  then show ?thesis
    using assms
    by (simp add: dict_get_def dict_add_def has_key_def update_conv' default_update)
       (simp add: dict_get_default_def)
next
  case (Some c)
  then show ?thesis
    using assms
    by (simp add: dict_get_def dict_add_def has_key_def default_update)
       (simp add: dict_get_default_def)
qed

lemma combine_in_text_value:
  "set styles \<subseteq> fst ` set res \<Longrightarrow>
   \<exists>comb'. combine_in_text styles res comb = Inr comb'
     \<and> (\<forall>k. dict_get_default comb' k 0 = dict_get_default comb k 0
            + sum_list (map (\<lambda>s. dict_get_default res s 0)
                 (filter (\<lambda>s. merged_style s = k) styles)))"
proof (induction styles arbitrary: comb)
  case Nil
  then show ?case by simp
next
  case (Cons s styles)
  have "map_of res s \<noteq> None"
    using Cons.prems by (simp add: map_of_eq_None_iff)
  then obtain n where n: "map_of res s = Some n" by auto
  from step_value [OF n, of comb "merged_style s"]
  obtain comb2 where c2:
    "(case dict_get res s of Inl e \<Rightarrow> Inl e
      | Inr n \<Rightarrow> dict_add (if \<not> has_key comb (merged_style s)
                             then AList.update (merged_style s) 0 comb else comb) (merged_style s) n)
       = Inr comb2"
    "\<forall>k'. dict_get_default comb2 k' 0
           = dict_get_default comb k' 0 + (if k' = merged_style s then n else 0)"
    by blast
  have sub: "set styles \<subseteq> fst ` set res" using Cons.prems by simp
  from Cons.IH [OF sub, of comb2] obtain comb' where c':
    "combine_in_text styles res comb2 = Inr comb'"
    "\<forall>k. dict_get_default comb' k 0 = dict_get_default comb2 k 0
            + sum_list (map (\<lambda>s. dict_get_default res s 0)
                 (filter (\<lambda>s. merged_style s = k) styles))"
    by blast
  have step: "combine_in_text (s # styles) res comb = combine_in_text styles res comb2"
    by (simp only: combine_in_text_Cons c2(1) sum.case)
  have "dict_get_default res s 0 = n" using n by (simp add: dict_get_default_def)
  then show ?case
    using step c'(1) c'(2) c2(2) by auto
qed

lemma combine_full_value:
  "set styles \<subseteq> fst ` set res \<Longrightarrow>
   \<exists>comb'. combine_full styles res comb = Inr comb'
     \<and> (\<forall>k. dict_get_default comb' k 0 = dict_get_default comb k 0
            + sum_list (map (\<lambda>s. dict_get_default res s 0) (filter (\<lambda>s. s = k) styles)))"
proof (induction styles arbitrary: comb)
  case Nil
  then show ?case by simp
next
  case (Cons s styles)
  have "map_of res s \<noteq> None"
    using Cons.prems by (simp add: map_of_eq_None_iff)
  then obtain n where n: "map_of res s = Some n" by auto
  from step_value [OF n, of comb s]
  obtain comb2 where c2:
    "(case dict_get res s of Inl e \<Rightarrow> Inl e
      | Inr n \<Rightarrow> dict_add (if \<not> has_key comb s then AList.update s 0 comb else comb) s n)
       = Inr comb2"
    "\<forall>k'. dict_get_default comb2 k' 0 = dict_get_default comb k' 0 + (if k' = s then n else 0)"
    by blast
  have sub: "set styles \<subseteq> fst ` set res" using Cons.prems by simp
  from Cons.IH [OF sub, of comb2] obtain comb' where c':
    "combine_full styles res comb2 = Inr comb'"
    "\<forall>k. dict_get_default comb' k 0 = dict_get_default comb2 k 0
            + sum_list (map (\<lambda>s. dict_get_default res s 0) (filter (\<lambda>s. s = k) styles))"
    by blast
  have step: "combine_full (s # styles) res comb = combine_full styles res comb2"
    by (simp only: combine_full_Cons c2(1) sum.case)
  have "dict_get_default res s 0 = n" using n by (simp add: dict_get_default_def)
  then show ?case
    using step c'(1) c'(2) c2(2) by auto
qed

lemma sum_filter_set:
  assumes "distinct xs" and "\<And>s. s \<notin> set xs \<Longrightarrow> f s = (0::nat)" and "finite S"
  shows "sum_list (map f (filter (\<lambda>s. s \<in> S) xs)) = sum f S"
proof -
  have "sum_list (map f (filter (\<lambda>s. s \<in> S) xs)) = sum f (set (filter (\<lambda>s. s \<in> S) xs))"
    using assms(1) by (simp add: sum_list_distinct_conv_sum_set)
  also have "set (filter (\<lambda>s. s \<in> S) xs) = set xs \<inter> S" by auto
  also have "sum f (set xs \<inter> S) = sum f S"
  proof (rule sum.mono_neutral_left)
    show "finite S" by (rule assms(3))
    show "set xs \<inter> S \<subseteq> S" by simp
    show "\<forall>i \<in> S - set xs \<inter> S. f i = 0" using assms(2) by blast
  qed
  finally show ?thesis .
qed

lemma sum_filter_eq:
  assumes "distinct xs" and "\<And>s. s \<notin> set xs \<Longrightarrow> f s = (0::nat)"
  shows "sum_list (map f (filter (\<lambda>s. s = k) xs)) = f k"
  using sum_filter_set [where xs = xs and f = f and S = "{k}"] assms by simp

lemma merged_chicago:
  "(merged_style s = ''CHICAGO'')
     = (s \<in> {''CHICAGO_AUTHOR_DATE'', ''CHICAGO_NOTES'', ''CHICAGO''})"
  by (auto simp: merged_style_def)

lemma sum_filter_chicago:
  assumes "distinct xs" and "\<And>s. s \<notin> set xs \<Longrightarrow> f s = (0::nat)"
  shows "sum_list (map f (filter (\<lambda>s. merged_style s = ''CHICAGO'') xs))
     = f ''CHICAGO_AUTHOR_DATE'' + f ''CHICAGO_NOTES'' + f ''CHICAGO''"
  unfolding merged_chicago
  using sum_filter_set [where xs = xs and f = f
      and S = "{''CHICAGO_AUTHOR_DATE'', ''CHICAGO_NOTES'', ''CHICAGO''}"] assms
  by simp

lemma combined_chicago:
  fixes subject :: string
  assumes wf: "wf_detector det"
  defines "res \<equiv> \<lparr>in_text = style_totals (in_text_patterns det) subject,
                    full_citation = style_totals (full_citation_patterns det) subject\<rparr>"
  shows "\<exists>comb. combined_results det res = Inr comb
     \<and> dict_get_default comb ''CHICAGO'' 0 =
          dict_get_default (in_text res) ''CHICAGO_AUTHOR_DATE'' 0
        + dict_get_default (in_text res) ''CHICAGO_NOTES'' 0
        + dict_get_default (in_text res) ''CHICAGO'' 0
        + dict_get_default (full_citation res) ''CHICAGO'' 0"
proof -
  let ?it = "style_totals (in_text_patterns det) subject"
  let ?fc = "style_totals (full_citation_patterns det) subject"
  have k1: "map fst ?it = keys (in_text_patterns det)"
    and k2: "map fst ?fc = keys (full_citation_patterns det)"
    by (simp_all add: keys_def style_totals_keys)
  have d1: "distinct (keys (in_text_patterns det))"
    and d2: "distinct (keys (full_citation_patterns det))"
    using wf by (simp_all add: wf_detector_def)
  have s1: "set (keys (in_text_patterns det)) \<subseteq> fst ` set ?it"
    by (metis k1 set_map subset_refl)
  have s2: "set (keys (full_citation_patterns det)) \<subseteq> fst ` set ?fc"
    by (metis k2 set_map subset_refl)
  have z1: "\<And>s. s \<notin> set (keys (in_text_patterns det)) \<Longrightarrow> dict_get_default ?it s 0 = 0"
    by (metis k1 set_map dict_get_default_def map_of_eq_None_iff option.simps(4))
  have z2: "\<And>s. s \<notin> set (keys (full_citation_patterns det)) \<Longrightarrow> dict_get_default ?fc s 0 = 0"
    by (metis k2 set_map dict_get_default_def map_of_eq_None_iff option.simps(4))
  from combine_in_text_value [OF s1, of "[]"] obtain c1 where c1:
    "combine_in_text (keys (in_text_patterns det)) ?it [] = Inr c1"
    "\<forall>k. dict_get_default c1 k 0 = dict_get_default [] k 0
            + sum_list (map (\<lambda>s. dict_get_default ?it s 0)
                 (filter (\<lambda>s. merged_style s = k) (keys (in_text_patterns det))))"
    by blast
  from combine_full_value [OF s2, of c1] obtain c2 where c2:
    "combine_full (keys (full_citation_patterns det)) ?fc c1 = Inr c2"
    "\<forall>k. dict_get_default c2 k 0 = dict_get_default c1 k 0
            + sum_list (map (\<lambda>s. dict_get_default ?fc s 0)
                 (filter (\<lambda>s. s = k) (keys (full_citation_patterns det))))"
    by blast
  have a: "dict_get_default c1 ''CHICAGO'' 0 =
      dict_get_default ?it ''CHICAGO_AUTHOR_DATE'' 0 + dict_get_default ?it ''CHICAGO_NOTES'' 0
      + dict_get_default ?it ''CHICAGO'' 0"
    using c1(2) sum_filter_chicago [OF d1 z1]
    by (simp add: dict_get_default_def)
  have b: "dict_get_default c2 ''CHICAGO'' 0 =
      dict_get_default c1 ''CHICAGO'' 0 + dict_get_default ?fc ''CHICAGO'' 0"
    using c2(2) sum_filter_eq [OF d2 z2] by simp
  show ?thesis
    using c1(1) c2(1) a b by (simp add: combined_results_def res_def)
qed

section \<open>The built-in detector on \<open>(Smith 25)\<close>\<close>

lemma wf_new_detector: "wf_detector new_detector"
  by (simp add: wf_detector_def new_detector_def keys_def default_in_text_patterns_def
      default_full_citation_patterns_def)

lemma compiles_compiled: "list_all compiles (compiled rs)"
  by (induction rs) (simp_all add: compiled_def compiles_def)

lemma all_compile_new_detector: "all_compile new_detector"
  by (simp add: all_compile_def table_compiles_def new_detector_def default_in_text_patterns_def
      default_full_citation_patterns_def compiles_compiled)

lemma smith_in_text:
  "style_totals default_in_text_patterns ''(Smith 25)'' =
     [(''APA'', 0), (''MLA'', 1), (''CHICAGO_AUTHOR_DATE'', 0), (''CHICAGO_NOTES'', 0),
      (''HARVARD'', 0), (''IEEE'', 0), (''VANCOUVER'', 0), (''CSE'', 0)]"
  by code_simp

lemma smith_full:
  "style_totals default_full_citation_patterns ''(Smith 25)'' =
     [(''APA'', 0), (''MLA'', 0), (''CHICAGO'', 0), (''HARVARD'', 0), (''IEEE'', 0),
      (''VANCOUVER'', 0), (''CSE'', 0)]"
  by code_simp

lemma detect_smith:
  "detect_citation_styles new_detector ''(Smith 25)'' =
     Inr \<lparr>in_text = [(''APA'', 0), (''MLA'', 1), (''CHICAGO_AUTHOR_DATE'', 0),
                      (''CHICAGO_NOTES'', 0), (''HARVARD'', 0), (''IEEE'', 0),
                      (''VANCOUVER'', 0), (''CSE'', 0)],
          full_citation = [(''APA'', 0), (''MLA'', 0), (''CHICAGO'', 0), (''HARVARD'', 0),
                            (''IEEE'', 0), (''VANCOUVER'', 0), (''CSE'', 0)]\<rparr>"
  using detect_ok [OF wf_new_detector all_compile_new_detector, of "''(Smith 25)''"]
    smith_in_text smith_full
  by (simp add: new_detector_def)

lemma new_detector_keys:
  "keys (in_text_patterns new_detector) =
     [''APA'', ''MLA'', ''CHICAGO_AUTHOR_DATE'', ''CHICAGO_NOTES'', ''HARVARD'', ''IEEE'',
      ''VANCOUVER'', ''CSE'']"
  "keys (full_citation_patterns new_detector) =
     [''APA'', ''MLA'', ''CHICAGO'', ''HARVARD'', ''IEEE'', ''VANCOUVER'', ''CSE'']"
  by (simp_all add: new_detector_def keys_def default_in_text_patterns_def
      default_full_citation_patterns_def)

lemma new_detector_combined:
  "combined_results new_detector
     \<lparr>in_text = [(''APA'', a1), (''MLA'', a2), (''CHICAGO_AUTHOR_DATE'', a3),
                 (''CHICAGO_NOTES'', a4), (''HARVARD'', a5), (''IEEE'', a6),
                 (''VANCOUVER'', a7), (''CSE'', a8)],
      full_citation = [(''APA'', b1), (''MLA'', b2), (''CHICAGO'', b3), (''HARVARD'', b4),
                       (''IEEE'', b5), (''VANCOUVER'', b6), (''CSE'', b7)]\<rparr>
   = Inr [(''APA'', a1 + b1), (''MLA'', a2 + b2), (''CHICAGO'', a3 + a4 + b3),
          (''HARVARD'', a5 + b4), (''IEEE'', a6 + b5), (''VANCOUVER'', a7 + b6),
          (''CSE'', a8 + b7)]"
  unfolding combined_results_def new_detector_keys
  by (simp add: has_key_def dict_get_def dict_add_def)

lemma identify_smith: "identify_primary_style new_detector ''(Smith 25)'' = Inr (''MLA'', 1)"
  unfolding identify_primary_style_def detect_smith
  by (simp add: new_detector_combined values_of_def dict_get_def py_div_def)

lemma keys_smith: "extract_citation_keys ''(Smith 25)'' ''MLA'' = Inr [(''Smith'', [])]"
  by code_simp

section \<open>A detector with a style named as the sentinel\<close>

lemma style_totals_append:
  "style_totals (a @ b) t = style_totals a t @ style_totals b t"
  by (simp add: style_totals_def)

lemma style_totals_single: "style_totals [(s, ps)] t = [(s, pattern_count ps t)]"
  by (simp add: style_totals_def)

lemma x_in_text:
  "style_totals default_in_text_patterns ''x'' =
     [(''APA'', 0), (''MLA'', 0), (''CHICAGO_AUTHOR_DATE'', 0), (''CHICAGO_NOTES'', 0),
      (''HARVARD'', 0), (''IEEE'', 0), (''VANCOUVER'', 0), (''CSE'', 0)]"
  by code_simp

lemma x_full:
  "style_totals default_full_citation_patterns ''x'' =
     [(''APA'', 0), (''MLA'', 0), (''CHICAGO'', 0), (''HARVARD'', 0), (''IEEE'', 0),
      (''VANCOUVER'', 0), (''CSE'', 0)]"
  by code_simp

lemma x_custom: "pattern_count (compiled [Lit (CHR ''x'')]) ''x'' = 1"
  by code_simp

lemma sentinel_style_keys:
  "keys (in_text_patterns sentinel_style_detector) =
     [''APA'', ''MLA'', ''CHICAGO_AUTHOR_DATE'', ''CHICAGO_NOTES'', ''HARVARD'', ''IEEE'',
      ''VANCOUVER'', ''CSE'', no_citations]"
  "keys (full_citation_patterns sentinel_style_detector) =
     [''APA'', ''MLA'', ''CHICAGO'', ''HARVARD'', ''IEEE'', ''VANCOUVER'', ''CSE'']"
  by (simp_all add: sentinel_style_detector_def keys_def default_in_text_patterns_def
      default_full_citation_patterns_def)

lemma wf_sentinel_style_detector: "wf_detector sentinel_style_detector"
  unfolding wf_detector_def sentinel_style_keys by (simp add: no_citations_def)

lemma all_compile_sentinel_style_detector: "all_compile sentinel_style_detector"
  by (simp add: all_compile_def table_compiles_def sentinel_style_detector_def
      default_in_text_patterns_def default_full_citation_patterns_def compiles_compiled)

lemma detect_sentinel_style:
  "detect_citation_styles sentinel_style_detector ''x'' =
     Inr \<lparr>in_text = [(''APA'', 0), (''MLA'', 0), (''CHICAGO_AUTHOR_DATE'', 0),
                      (''CHICAGO_NOTES'', 0), (''HARVARD'', 0), (''IEEE'', 0),
                      (''VANCOUVER'', 0), (''CSE'', 0), (no_citations, 1)],
          full_citation = [(''APA'', 0), (''MLA'', 0), (''CHICAGO'', 0), (''HARVARD'', 0),
                            (''IEEE'', 0), (''VANCOUVER'', 0), (''CSE'', 0)]\<rparr>"
  unfolding detect_ok [OF wf_sentinel_style_detector all_compile_sentinel_style_detector]
  by (simp add: sentinel_style_detector_def style_totals_append style_totals_single
      x_in_text x_full x_custom)


lemma sentinel_neq:
  "no_citations \<noteq> ''APA''" "no_citations \<noteq> ''MLA''" "no_citations \<noteq> ''CHICAGO''"
  "no_citations \<noteq> ''CHICAGO_AUTHOR_DATE''" "no_citations \<noteq> ''CHICAGO_NOTES''"
  "no_citations \<noteq> ''HARVARD''" "no_citations \<noteq> ''IEEE''"
  "no_citations \<noteq> ''VANCOUVER''" "no_citations \<noteq> ''CSE''"
  by (simp_all add: no_citations_def)

lemma sentinel_style_combined:
  "combined_results sentinel_style_detector
     \<lparr>in_text = [(''APA'', a1), (''MLA'', a2), (''CHICAGO_AUTHOR_DATE'', a3),
                 (''CHICAGO_NOTES'', a4), (''HARVARD'', a5), (''IEEE'', a6),
                 (''VANCOUVER'', a7), (''CSE'', a8), (no_citations, a9)],
      full_citation = [(''APA'', b1), (''MLA'', b2), (''CHICAGO'', b3), (''HARVARD'', b4),
                       (''IEEE'', b5), (''VANCOUVER'', b6), (''CSE'', b7)]\<rparr>
   = Inr [(''APA'', a1 + b1), (''MLA'', a2 + b2), (''CHICAGO'', a3 + a4 + b3),
          (''HARVARD'', a5 + b4), (''IEEE'', a6 + b5), (''VANCOUVER'', a7 + b6),
          (''CSE'', a8 + b7), (no_citations, a9)]"
  unfolding combined_results_def sentinel_style_keys
  by (simp add: has_key_def dict_get_def dict_add_def sentinel_neq sentinel_neq [symmetric])

section \<open>Detectors with a custom style\<close>

lemma empty_in_text: "style_totals default_in_text_patterns [] =
     [(''APA'', 0), (''MLA'', 0), (''CHICAGO_AUTHOR_DATE'', 0), (''CHICAGO_NOTES'', 0),
      (''HARVARD'', 0), (''IEEE'', 0), (''VANCOUVER'', 0), (''CSE'', 0)]"
  by code_simp

lemma empty_full: "style_totals default_full_citation_patterns [] =
     [(''APA'', 0), (''MLA'', 0), (''CHICAGO'', 0), (''HARVARD'', 0), (''IEEE'', 0),
      (''VANCOUVER'', 0), (''CSE'', 0)]"
  by code_simp

lemma custom_keys:
  "keys (default_in_text_patterns @ [(s, ps)]) =
     [''APA'', ''MLA'', ''CHICAGO_AUTHOR_DATE'', ''CHICAGO_NOTES'', ''HARVARD'', ''IEEE'',
      ''VANCOUVER'', ''CSE'', s]"
  "keys default_full_citation_patterns =
     [''APA'', ''MLA'', ''CHICAGO'', ''HARVARD'', ''IEEE'', ''VANCOUVER'', ''CSE'']"
  by (simp_all add: keys_def default_in_text_patterns_def default_full_citation_patterns_def)

lemma wf_malformed_pattern_detector: "wf_detector malformed_pattern_detector"
  unfolding wf_detector_def malformed_pattern_detector_def
  by (simp add: custom_keys)

lemma identify_malformed: "identify_primary_style malformed_pattern_detector [] = Inl ReError"
  by code_simp

lemma wf_star_pattern_detector: "wf_detector star_pattern_detector"
  unfolding wf_detector_def star_pattern_detector_def
  by (simp add: custom_keys)

lemma all_compile_star_pattern_detector: "all_compile star_pattern_detector"
  by (simp add: all_compile_def table_compiles_def star_pattern_detector_def
      default_in_text_patterns_def default_full_citation_patterns_def compiles_compiled)

lemma star_empty: "pattern_count (compiled [Star (Lit (CHR ''x''))]) [] = 1"
  by code_simp

lemma detect_star:
  "detect_citation_styles star_pattern_detector [] =
     Inr \<lparr>in_text = [(''APA'', 0), (''MLA'', 0), (''CHICAGO_AUTHOR_DATE'', 0),
                      (''CHICAGO_NOTES'', 0), (''HARVARD'', 0), (''IEEE'', 0),
                      (''VANCOUVER'', 0), (''CSE'', 0), (''X'', 1)],
          full_citation = [(''APA'', 0), (''MLA'', 0), (''CHICAGO'', 0), (''HARVARD'', 0),
                            (''IEEE'', 0), (''VANCOUVER'', 0), (''CSE'', 0)]\<rparr>"
  unfolding detect_ok [OF wf_star_pattern_detector all_compile_star_pattern_detector]
  by (simp add: star_pattern_detector_def style_totals_append style_totals_single
      empty_in_text empty_full star_empty)

lemma star_combined:
  "combined_results star_pattern_detector
     \<lparr>in_text = [(''APA'', a1), (''MLA'', a2), (''CHICAGO_AUTHOR_DATE'', a3),
                 (''CHICAGO_NOTES'', a4), (''HARVARD'', a5), (''IEEE'', a6),
                 (''VANCOUVER'', a7), (''CSE'', a8), (''X'', a9)],
      full_citation = [(''APA'', b1), (''MLA'', b2), (''CHICAGO'', b3), (''HARVARD'', b4),
                       (''IEEE'', b5), (''VANCOUVER'', b6), (''CSE'', b7)]\<rparr>
   = Inr [(''APA'', a1 + b1), (''MLA'', a2 + b2), (''CHICAGO'', a3 + a4 + b3),
          (''HARVARD'', a5 + b4), (''IEEE'', a6 + b5), (''VANCOUVER'', a7 + b6),
          (''CSE'', a8 + b7), (''X'', a9)]"
  unfolding combined_results_def star_pattern_detector_def
  by (simp add: custom_keys has_key_def dict_get_def dict_add_def)

lemma identify_star: "identify_primary_style star_pattern_detector [] = Inr (''X'', 1)"
  unfolding identify_primary_style_def detect_star
  by (simp add: star_combined values_of_def dict_get_def py_div_def)

section \<open>Detectors with a custom Chicago style\<close>

lemma full_keys:
  "keys (default_full_citation_patterns @ [(s, ps)]) =
     [''APA'', ''MLA'', ''CHICAGO'', ''HARVARD'', ''IEEE'', ''VANCOUVER'', ''CSE'', s]"
  "keys default_in_text_patterns =
     [''APA'', ''MLA'', ''CHICAGO_AUTHOR_DATE'', ''CHICAGO_NOTES'', ''HARVARD'', ''IEEE'',
      ''VANCOUVER'', ''CSE'']"
  by (simp_all add: keys_def default_in_text_patterns_def default_full_citation_patterns_def)

lemma wf_notes_style_detector: "wf_detector notes_style_detector"
  unfolding wf_detector_def notes_style_detector_def
  by (simp add: full_keys)

lemma all_compile_notes_style_detector: "all_compile notes_style_detector"
  by (simp add: all_compile_def table_compiles_def notes_style_detector_def
      default_in_text_patterns_def default_full_citation_patterns_def compiles_compiled)

lemma detect_notes_style:
  "detect_citation_styles notes_style_detector ''x'' =
     Inr \<lparr>in_text = [(''APA'', 0), (''MLA'', 0), (''CHICAGO_AUTHOR_DATE'', 0),
                      (''CHICAGO_NOTES'', 0), (''HARVARD'', 0), (''IEEE'', 0),
                      (''VANCOUVER'', 0), (''CSE'', 0)],
          full_citation = [(''APA'', 0), (''MLA'', 0), (''CHICAGO'', 0), (''HARVARD'', 0),
                            (''IEEE'', 0), (''VANCOUVER'', 0), (''CSE'', 0),
                            (''CHICAGO_NOTES'', 1)]\<rparr>"
  unfolding detect_ok [OF wf_notes_style_detector all_compile_notes_style_detector]
  by (simp add: notes_style_detector_def style_totals_append style_totals_single
      x_in_text x_full x_custom)

lemma notes_style_combined:
  "combined_results notes_style_detector
     \<lparr>in_text = [(''APA'', a1), (''MLA'', a2), (''CHICAGO_AUTHOR_DATE'', a3),
                 (''CHICAGO_NOTES'', a4), (''HARVARD'', a5), (''IEEE'', a6),
                 (''VANCOUVER'', a7), (''CSE'', a8)],
      full_citation = [(''APA'', b1), (''MLA'', b2), (''CHICAGO'', b3), (''HARVARD'', b4),
                       (''IEEE'', b5), (''VANCOUVER'', b6), (''CSE'', b7),
                       (''CHICAGO_NOTES'', b8)]\<rparr>
   = Inr [(''APA'', a1 + b1), (''MLA'', a2 + b2), (''CHICAGO'', a3 + a4 + b3),
          (''HARVARD'', a5 + b4), (''IEEE'', a6 + b5), (''VANCOUVER'', a7 + b6),
          (''CSE'', a8 + b7), (''CHICAGO_NOTES'', b8)]"
  unfolding combined_results_def notes_style_detector_def
  by (simp add: full_keys has_key_def dict_get_def dict_add_def)

lemma identify_notes_style:
  "identify_primary_style notes_style_detector ''x'' = Inr (''CHICAGO_NOTES'', 1)"
  unfolding identify_primary_style_def detect_notes_style
  by (simp add: notes_style_combined values_of_def dict_get_def py_div_def)

lemma wf_chicago_style_detector: "wf_detector chicago_style_detector"
  unfolding wf_detector_def chicago_style_detector_def
  by (simp add: custom_keys)

lemma all_compile_chicago_style_detector: "all_compile chicago_style_detector"
  by (simp add: all_compile_def table_compiles_def chicago_style_detector_def
      default_in_text_patterns_def default_full_citation_patterns_def compiles_compiled)

lemma detect_chicago_style:
  "detect_citation_styles chicago_style_detector ''x'' =
     Inr \<lparr>in_text = [(''APA'', 0), (''MLA'', 0), (''CHICAGO_AUTHOR_DATE'', 0),
                      (''CHICAGO_NOTES'', 0), (''HARVARD'', 0), (''IEEE'', 0),
                      (''VANCOUVER'', 0), (''CSE'', 0), (''CHICAGO'', 1)],
          full_citation = [(''APA'', 0), (''MLA'', 0), (''CHICAGO'', 0), (''HARVARD'', 0),
                            (''IEEE'', 0), (''VANCOUVER'', 0), (''CSE'', 0)]\<rparr>"
  unfolding detect_ok [OF wf_chicago_style_detector all_compile_chicago_style_detector]
  by (simp add: chicago_style_detector_def style_totals_append style_totals_single
      x_in_text x_full x_custom)

lemma chicago_style_combined:
  "combined_results chicago_style_detector
     \<lparr>in_text = [(''APA'', a1), (''MLA'', a2), (''CHICAGO_AUTHOR_DATE'', a3),
                 (''CHICAGO_NOTES'', a4), (''HARVARD'', a5), (''IEEE'', a6),
                 (''VANCOUVER'', a7), (''CSE'', a8), (''CHICAGO'', a9)],
      full_citation = [(''APA'', b1), (''MLA'', b2), (''CHICAGO'', b3), (''HARVARD'', b4),
                       (''IEEE'', b5), (''VANCOUVER'', b6), (''CSE'', b7)]\<rparr>
   = Inr [(''APA'', a1 + b1), (''MLA'', a2 + b2), (''CHICAGO'', a3 + a4 + a9 + b3),
          (''HARVARD'', a5 + b4), (''IEEE'', a6 + b5), (''VANCOUVER'', a7 + b6),
          (''CSE'', a8 + b7)]"
  unfolding combined_results_def chicago_style_detector_def
  by (simp add: custom_keys has_key_def dict_get_def dict_add_def)

lemma detect_empty:
  "detect_citation_styles new_detector [] =
     Inr \<lparr>in_text = [(''APA'', 0), (''MLA'', 0), (''CHICAGO_AUTHOR_DATE'', 0),
                      (''CHICAGO_NOTES'', 0), (''HARVARD'', 0), (''IEEE'', 0),
                      (''VANCOUVER'', 0), (''CSE'', 0)],
          full_citation = [(''APA'', 0), (''MLA'', 0), (''CHICAGO'', 0), (''HARVARD'', 0),
                            (''IEEE'', 0), (''VANCOUVER'', 0), (''CSE'', 0)]\<rparr>"
  using detect_ok [OF wf_new_detector all_compile_new_detector, of "[]"] empty_in_text empty_full
  by (simp add: new_detector_def)

lemma chicago_in_text:
  "style_totals default_in_text_patterns ''(Smith 2020, 15)'' =
     [(''APA'', 0), (''MLA'', 0), (''CHICAGO_AUTHOR_DATE'', 1), (''CHICAGO_NOTES'', 0),
      (''HARVARD'', 0), (''IEEE'', 0), (''VANCOUVER'', 0), (''CSE'', 1)]"
  by code_simp

lemma chicago_full:
  "style_totals default_full_citation_patterns ''(Smith 2020, 15)'' =
     [(''APA'', 0), (''MLA'', 0), (''CHICAGO'', 0), (''HARVARD'', 0), (''IEEE'', 0),
      (''VANCOUVER'', 0), (''CSE'', 0)]"
  by code_simp

lemma detect_chicago:
  "detect_citation_styles new_detector ''(Smith 2020, 15)'' =
     Inr \<lparr>in_text = [(''APA'', 0), (''MLA'', 0), (''CHICAGO_AUTHOR_DATE'', 1),
                      (''CHICAGO_NOTES'', 0), (''HARVARD'', 0), (''IEEE'', 0),
                      (''VANCOUVER'', 0), (''CSE'', 1)],
          full_citation = [(''APA'', 0), (''MLA'', 0), (''CHICAGO'', 0), (''HARVARD'', 0),
                            (''IEEE'', 0), (''VANCOUVER'', 0), (''CSE'', 0)]\<rparr>"
  using detect_ok [OF wf_new_detector all_compile_new_detector, of "''(Smith 2020, 15)''"]
    chicago_in_text chicago_full
  by (simp add: new_detector_def)

lemma identify_chicago:
  "identify_primary_style new_detector ''(Smith 2020, 15)'' = Inr (''CHICAGO'', 1 / 2)"
  unfolding identify_primary_style_def detect_chicago
  by (simp add: new_detector_combined values_of_def dict_get_def py_div_def)

section \<open>Texts of white space\<close>

lemma item_nonspace_sound: "item_nonspace i \<Longrightarrow> in_item i x \<Longrightarrow> \<not> is_space x"
proof (cases i)
  case (Range a b)
  assume "item_nonspace i" and "in_item i x"
  then have "cp x \<in> set [cp a ..< Suc (cp b)]" and
    "\<forall>n \<in> set [cp a ..< Suc (cp b)]. \<not> is_space (char_of n)"
    using Range by (auto simp: list_all_iff)
  then have "\<not> is_space (char_of (cp x))" by blast
  then show ?thesis by (simp add: cp_def)
next
  case ClsDigit
  assume "in_item i x"
  then show ?thesis using ClsDigit by (auto simp: is_digit_def is_space_def Let_def)
next
  case ClsWord
  assume "in_item i x"
  then show ?thesis using ClsWord by (auto simp: is_word_def is_space_def Let_def)
qed auto

lemma zero_width_cases:
  "zero_width a \<Longrightarrow> rmatch a f (p, s, g) k = None \<or> rmatch a f (p, s, g) k = k (p, s, g)"
  by (cases a) auto

lemma starts_nonspace_no_match:
  assumes sp: "\<forall>c \<in> set s. is_space c" and f: "\<not> ignorecase f"
  shows "starts_nonspace r \<Longrightarrow> rmatch r f (p, s, g) k = None"
proof (induction r arbitrary: p g k)
  case (Lit a)
  then show ?case using sp f by (cases s) (auto simp: lit_eq_def)
next
  case (Cls its)
  then show ?case using sp f
    by (cases s) (auto simp: in_class_def list_ex_iff list_all_iff dest: item_nonspace_sound)
next
  case (Seq a b)
  show ?case
  proof (cases "starts_nonspace a")
    case True
    then show ?thesis using Seq.IH(1) by simp
  next
    case False
    then have z: "zero_width a" and b: "starts_nonspace b" using Seq.prems by auto
    from zero_width_cases [OF z, of f p s g "\<lambda>c'. rmatch b f c' k"] Seq.IH(2) [OF b]
    show ?thesis by auto
  qed
next
  case (Alt a b)
  then show ?case by simp
next
  case (Rep lo hi a)
  then show ?case by (cases hi) auto
qed auto

lemma finditer_blank:
  assumes r: "starts_nonspace r" and f: "\<not> ignorecase f"
  shows "\<forall>c \<in> set s. is_space c \<Longrightarrow> finditer_from r f p n adv s = []"
proof (induction s arbitrary: p n adv)
  case Nil
  have "rmatch r f (p, [], []) (\<lambda>c. if adv \<and> length (rest c) = length ([]::string) then None else Some c) = None"
    by (rule starts_nonspace_no_match [OF _ f r]) simp
  then show ?case
    by (subst finditer_from.simps) simp
next
  case (Cons x xs)
  have "rmatch r f (p, x # xs, [])
          (\<lambda>c. if adv \<and> length (rest c) = length (x # xs) then None else Some c) = None"
    by (rule starts_nonspace_no_match [OF Cons.prems f r])
  moreover have "finditer_from r f (Some x) (Suc n) False xs = []"
    using Cons by simp
  ultimately show ?case
    by (subst finditer_from.simps) simp
qed

lemma findall_blank:
  "starts_nonspace r \<Longrightarrow> \<forall>c \<in> set s. is_space c \<Longrightarrow> re_findall r MULTILINE s = []"
  by (simp add: re_findall_def re_finditer_def MULTILINE_def finditer_blank)

lemma pattern_count_blank:
  "list_all pattern_nonspace ps \<Longrightarrow> \<forall>c \<in> set s. is_space c \<Longrightarrow> pattern_count ps s = 0"
proof (induction ps)
  case Nil
  then show ?case by (simp add: pattern_count_def)
next
  case (Cons p ps)
  then have "pattern_count ps s = 0" by simp
  moreover have "(case p of Inl e \<Rightarrow> 0 | Inr r \<Rightarrow> length (re_findall r MULTILINE s)) = 0"
    using Cons.prems by (cases p) (simp_all add: pattern_nonspace_def findall_blank)
  ultimately show ?case by (simp add: pattern_count_def)
qed

lemma style_totals_blank:
  "table_nonspace t \<Longrightarrow> \<forall>c \<in> set s. is_space c \<Longrightarrow>
   sum_list (map snd (style_totals t s)) = 0"
  by (induction t) (auto simp: table_nonspace_def style_totals_def pattern_count_blank)

lemma pattern_nonspace_compiles: "pattern_nonspace p \<Longrightarrow> compiles p"
  by (cases p) (simp_all add: pattern_nonspace_def compiles_def)

lemma table_nonspace_compiles: "table_nonspace t \<Longrightarrow> table_compiles t"
  by (induction t)
     (auto simp: table_nonspace_def table_compiles_def list_all_iff
       intro: pattern_nonspace_compiles)

lemma catalog_nonspace_compiles: "catalog_nonspace det \<Longrightarrow> all_compile det"
  by (simp add: catalog_nonspace_def all_compile_def table_nonspace_compiles)

lemma nonspace_compiled: "list_all starts_nonspace rs \<Longrightarrow> list_all pattern_nonspace (compiled rs)"
  by (induction rs) (simp_all add: compiled_def pattern_nonspace_def)

lemma builtin_starts_nonspace:
  "list_all starts_nonspace apa_in_text" "list_all starts_nonspace mla_in_text"
  "list_all starts_nonspace chicago_author_date_in_text"
  "list_all starts_nonspace chicago_notes_in_text" "list_all starts_nonspace harvard_in_text"
  "list_all starts_nonspace ieee_in_text" "list_all starts_nonspace vancouver_in_text"
  "list_all starts_nonspace cse_in_text"
  "list_all starts_nonspace apa_full" "list_all starts_nonspace mla_full"
  "list_all starts_nonspace chicago_full" "list_all starts_nonspace harvard_full"
  "list_all starts_nonspace ieee_full" "list_all starts_nonspace vancouver_full"
  "list_all starts_nonspace cse_full"
  by (simp_all add: apa_in_text_def mla_in_text_def chicago_author_date_in_text_def
      chicago_notes_in_text_def harvard_in_text_def ieee_in_text_def vancouver_in_text_def
      cse_in_text_def apa_full_def mla_full_def chicago_full_def harvard_full_def ieee_full_def
      vancouver_full_def cse_full_def apa_authors_def mla_authors_def chicago_authors_def
      harvard_authors_def ieee_authors_def vancouver_authors_def cse_authors_def
      apa_au_def mla_au_def harvard_au_def vancouver_au_def author_etal_def name2_def name_def
      digits_def digit_def AZ_def az_def is_space_def cp_def)

lemma catalog_nonspace_new_detector: "catalog_nonspace new_detector"
  by (simp add: catalog_nonspace_def table_nonspace_def new_detector_def
      default_in_text_patterns_def default_full_citation_patterns_def
      nonspace_compiled builtin_starts_nonspace)

section \<open>Which calls return and which raise\<close>

lemma first_header_strict: "hs \<noteq> [] \<Longrightarrow> first_header From_3_11 hs text = Inl ReError"
  by (cases hs) (simp_all add: header_line_pattern_def misplaced_flag_def)

lemma first_header_legacy: "\<exists>r. first_header Before_3_11 hs text = Inr r"
  by (induction hs) (auto simp: header_line_pattern_def misplaced_flag_def split: option.splits)

lemma all_headers_not_Nil: "all_headers \<noteq> []"
  by (simp add: all_headers_def bibliography_headers_def)

lemma extract_main_text_strict: "extract_main_text From_3_11 text = Inl ReError"
  by (simp add: extract_main_text_def first_header_strict [OF all_headers_not_Nil])

lemma extract_main_text_legacy: "\<exists>r. extract_main_text Before_3_11 text = Inr r"
  using first_header_legacy [of all_headers "text"]
  by (auto simp: extract_main_text_def split: option.splits)

lemma extract_in_text_strict: "extract_in_text_citations From_3_11 ex text style = Inl ReError"
  by (simp add: extract_in_text_citations_def collected_in_text_def extract_main_text_strict)

lemma extract_in_text_legacy: "\<exists>cs. extract_in_text_citations Before_3_11 ex text style = Inr cs"
  using extract_main_text_legacy [of "text"]
  by (auto simp: extract_in_text_citations_def collected_in_text_def)

lemma extract_bibliography_section_strict:
  "extract_bibliography_section From_3_11 text style = Inl ReError"
proof -
  let ?hs = "if dict_get_default bibliography_headers style [] = [] then all_headers
             else dict_get_default bibliography_headers style []"
  have "?hs \<noteq> []" using all_headers_not_Nil by simp
  from first_header_strict [OF this, of "text"]
  show ?thesis
    by (simp add: extract_bibliography_section_def Let_def)
qed

lemma extract_bibliography_strict:
  "extract_bibliography_citations From_3_11 text style = Inl ReError"
  by (simp add: extract_bibliography_citations_def extract_bibliography_section_strict)

lemma remove_headers_legacy: "\<exists>r. remove_headers Before_3_11 hs s = Inr r"
  by (induction hs arbitrary: s) (auto simp: header_prefix_pattern_def misplaced_flag_def)

lemma extract_bibliography_section_legacy:
  "\<exists>r. extract_bibliography_section Before_3_11 text style = Inr r"
proof -
  let ?hs = "if dict_get_default bibliography_headers style [] = [] then all_headers
             else dict_get_default bibliography_headers style []"
  from first_header_legacy [of ?hs "text"] obtain r where
    "first_header Before_3_11 ?hs text = Inr r" by blast
  then show ?thesis
    by (cases r) (auto simp: extract_bibliography_section_def Let_def split: option.splits)
qed

lemma extract_bibliography_legacy:
  "\<exists>es. extract_bibliography_citations Before_3_11 text style = Inr es"
proof -
  obtain b where b: "extract_bibliography_section Before_3_11 text style = Inr b"
    using extract_bibliography_section_legacy by blast
  obtain r where r: "remove_headers Before_3_11 (dict_get_default bibliography_headers style []) b = Inr r"
    using remove_headers_legacy by blast
  show ?thesis
    using b r by (simp add: extract_bibliography_citations_def split_bibliography_entries_def)
qed

lemma matched_texts_compiles:
  "list_all compiles ps \<Longrightarrow> \<exists>r. matched_texts ps text out = Inr r"
proof (induction ps arbitrary: out)
  case Nil
  then show ?case by simp
next
  case (Cons p ps)
  then show ?case by (cases p) (auto simp: compiles_def)
qed

lemma line_matches_compiles:
  "list_all compiles ps \<Longrightarrow> \<exists>r. line_matches ps line = Inr r"
proof (induction ps)
  case Nil
  have "line_matches [] line = Inr False" by simp
  then show ?case by blast
next
  case (Cons p ps)
  then obtain b where b: "line_matches ps line = Inr b" by auto
  from Cons.prems obtain r where r: "p = Inr r" using compiles_Inr [of p] by auto
  show ?case
  proof (cases "re_match r no_flags line \<noteq> None")
    case True
    then have "line_matches (p # ps) line = Inr True" using r by simp
    then show ?thesis by blast
  next
    case False
    then have "line_matches (p # ps) line = Inr b" using r b by simp
    then show ?thesis by blast
  qed
qed

lemma scan_lines_compiles:
  "list_all compiles ps \<Longrightarrow> \<exists>r. scan_lines ps hs lines i = Inr r"
proof (induction i)
  case 0
  then show ?case by simp
next
  case (Suc i)
  from line_matches_compiles [OF Suc.prems, of "lines ! Suc i"] obtain b where
    "line_matches ps (lines ! Suc i) = Inr b" by blast
  then show ?case using Suc by (cases b) auto
qed

lemma table_lookup_compiles:
  "table_compiles t \<Longrightarrow> list_all compiles (dict_get_default t k [])"
proof (induction t)
  case Nil
  then show ?case by (simp add: dict_get_default_def)
next
  case (Cons a t)
  obtain k' ps where a: "a = (k', ps)" by (cases a)
  have "list_all compiles ps" "table_compiles t"
    using Cons.prems a by (simp_all add: table_compiles_def)
  then show ?case
    using Cons.IH a by (simp add: dict_get_default_def)
qed

lemma table_get_compiles:
  "table_compiles t \<Longrightarrow> dict_get t k = Inr ps \<Longrightarrow> list_all compiles ps"
  using table_lookup_compiles [of t k]
  by (auto simp: dict_get_def dict_get_default_def split: option.splits)

lemma has_key_get: "has_key t k \<Longrightarrow> \<exists>v. dict_get t k = Inr v"
  by (auto simp: has_key_def dict_get_def)

lemma extract_in_text_of_compiles:
  assumes "all_compile det"
  shows "\<exists>r. extract_in_text_of det text s = Inr r"
proof (cases "has_key (in_text_patterns det) s")
  case False
  then show ?thesis by (simp add: extract_in_text_of_def)
next
  case True
  have tc: "table_compiles (in_text_patterns det)" using assms by (simp add: all_compile_def)
  from has_key_get [OF True] obtain ps where ps: "dict_get (in_text_patterns det) s = Inr ps"
    by blast
  let ?ps = "if s = ''CHICAGO''
             then dict_get_default (in_text_patterns det) ''CHICAGO_AUTHOR_DATE'' []
                  @ dict_get_default (in_text_patterns det) ''CHICAGO_NOTES'' []
             else ps"
  have "list_all compiles ?ps"
    using table_lookup_compiles [OF tc] table_get_compiles [OF tc ps] by simp
  from matched_texts_compiles [OF this, of "text" "[]"]
  show ?thesis using True ps by (simp add: extract_in_text_of_def)
qed

lemma find_bibliography_section_compiles:
  assumes "all_compile det"
  shows "\<exists>r. find_bibliography_section det text s = Inr r"
proof -
  have "list_all compiles (dict_get_default (full_citation_patterns det) s [])"
    using assms by (simp add: all_compile_def table_lookup_compiles)
  from scan_lines_compiles [OF this]
  show ?thesis
    by (auto simp: find_bibliography_section_def Let_def split: option.splits)
qed

lemma extract_bibliography_of_compiles:
  assumes "all_compile det"
  shows "\<exists>r. extract_bibliography_of det text s = Inr r"
proof (cases "has_key (full_citation_patterns det) s")
  case False
  then show ?thesis by (simp add: extract_bibliography_of_def)
next
  case True
  have tc: "table_compiles (full_citation_patterns det)" using assms by (simp add: all_compile_def)
  from has_key_get [OF True] obtain ps where ps: "dict_get (full_citation_patterns det) s = Inr ps"
    by blast
  obtain b where b: "find_bibliography_section det text s = Inr b"
    using find_bibliography_section_compiles [OF assms] by blast
  obtain m where m: "matched_texts ps b [] = Inr m"
    using matched_texts_compiles [OF table_get_compiles [OF tc ps]] by blast
  show ?thesis
    using True ps b m by (simp add: extract_bibliography_of_def)
qed

lemma extract_citations_compiles:
  assumes "wf_detector det" and "all_compile det"
  shows "\<exists>c. extract_citations det text = Inr c"
proof -
  from identify_cases [OF assms, of "text"] obtain s c where
    i: "identify_primary_style det text = Inr (s, c)" by blast
  obtain a where a: "extract_in_text_of det text s = Inr a"
    using extract_in_text_of_compiles [OF assms(2)] by blast
  obtain b where b: "extract_bibliography_of det text s = Inr b"
    using extract_bibliography_of_compiles [OF assms(2)] by blast
  show ?thesis using i a b by (simp add: extract_citations_def)
qed

section \<open>What the patterns of the validity filter accept\<close>

lemma search_from_Some:
  "search_from r f p n s = Some m \<Longrightarrow>
   \<exists>pre s' c. s = pre @ s' \<and>
      rmatch r f (if pre = [] then p else Some (last pre), s', []) Some = Some c"
proof (induction s arbitrary: p n)
  case Nil
  then obtain c where "rmatch r f (p, [], []) Some = Some c"
    by auto
  then have "[] = [] @ ([]::string) \<and>
      rmatch r f (if ([]::string) = [] then p else Some (last []), [], []) Some = Some c"
    by simp
  then show ?case by (rule_tac x = "[]" in exI, rule_tac x = "[]" in exI, rule_tac x = c in exI)
next
  case (Cons x xs)
  show ?case
  proof (cases "rmatch r f (p, x # xs, []) Some")
    case (Some c)
    then have "x # xs = [] @ (x # xs) \<and>
      rmatch r f (if ([]::string) = [] then p else Some (last []), x # xs, []) Some = Some c"
      by simp
    then show ?thesis
      by (rule_tac x = "[]" in exI, rule_tac x = "x # xs" in exI, rule_tac x = c in exI)
  next
    case None
    then have "search_from r f (Some x) (Suc n) xs = Some m" using Cons.prems by simp
    from Cons.IH [OF this] obtain pre s' c where
      h: "xs = pre @ s'"
         "rmatch r f (if pre = [] then Some x else Some (last pre), s', []) Some = Some c"
      by blast
    have "x # xs = (x # pre) @ s' \<and>
      rmatch r f (if x # pre = [] then p else Some (last (x # pre)), s', []) Some = Some c"
      using h by (cases "pre = []") simp_all
    then show ?thesis
      by (rule_tac x = "x # pre" in exI, rule_tac x = s' in exI, rule_tac x = c in exI)
  qed
qed

lemma found_at:
  "found r s \<Longrightarrow>
   \<exists>pre s' c. s = pre @ s' \<and>
      rmatch r no_flags (if pre = [] then None else Some (last pre), s', []) Some = Some c"
proof -
  assume "found r s"
  then obtain m where "search_from r no_flags None 0 s = Some m"
    by (auto simp: found_def re_search_def)
  from search_from_Some [OF this] show ?thesis .
qed

lemma step_Some:
  "step P (p, s, g) k = Some r \<Longrightarrow> \<exists>x xs. s = x # xs \<and> P x \<and> k (Some x, xs, g) = Some r"
  by (cases s) (auto split: if_splits)

lemma greedy_cls:
  "greedy (rmatch (Cls its) f) n (p, s, g) k = Some r \<Longrightarrow>
   \<exists>w s' p'. s = w @ s' \<and> list_all (in_class f its) w \<and> k (p', s', g) = Some r"
proof (induction n arbitrary: p s)
  case 0
  then have "s = [] @ s" "list_all (in_class f its) []" "k (p, s, g) = Some r" by simp_all
  then show ?case by blast
next
  case (Suc n)
  let ?K = "\<lambda>c'. if length (rest c') < length s then greedy (rmatch (Cls its) f) n c' k else None"
  show ?case
  proof (cases "rmatch (Cls its) f (p, s, g) ?K")
    case None
    then have "s = [] @ s" "list_all (in_class f its) []" "k (p, s, g) = Some r"
      using Suc.prems by simp_all
    then show ?thesis by blast
  next
    case (Some r')
    then have r': "r' = r" using Suc.prems by simp
    from Some have "step (in_class f its) (p, s, g) ?K = Some r'" by simp
    from step_Some [OF this]
    obtain x xs where x: "s = x # xs" "in_class f its x" "?K (Some x, xs, g) = Some r'"
      by blast
    then have "greedy (rmatch (Cls its) f) n (Some x, xs, g) k = Some r"
      using r' by (auto split: if_splits)
    from Suc.IH [OF this] obtain w s' p' where
      "xs = w @ s'" "list_all (in_class f its) w" "k (p', s', g) = Some r"
      by blast
    then have "s = (x # w) @ s'" "list_all (in_class f its) (x # w)" "k (p', s', g) = Some r"
      using x by auto
    then show ?thesis by blast
  qed
qed

lemma plus_cls:
  "rmatch (Plus (Cls its)) f (p, s, g) k = Some r \<Longrightarrow>
   \<exists>w s' p'. s = w @ s' \<and> w \<noteq> [] \<and> list_all (in_class f its) w \<and> k (p', s', g) = Some r"
proof -
  assume "rmatch (Plus (Cls its)) f (p, s, g) k = Some r"
  then have "step (in_class f its) (p, s, g)
      (\<lambda>c'. greedy (rmatch (Cls its) f) (length (rest c')) c' k) = Some r"
    by simp
  from step_Some [OF this]
  obtain x xs where x: "s = x # xs" "in_class f its x"
    "greedy (rmatch (Cls its) f) (length xs) (Some x, xs, g) k = Some r"
    by auto
  from greedy_cls [OF x(3)] obtain w s' p' where
    "xs = w @ s'" "list_all (in_class f its) w" "k (p', s', g) = Some r"
    by blast
  then have "s = (x # w) @ s'" "x # w \<noteq> []" "list_all (in_class f its) (x # w)"
    "k (p', s', g) = Some r"
    using x by auto
  then show ?thesis by blast
qed

lemma list_all_last:
  "list_all P w \<Longrightarrow> w \<noteq> [] \<Longrightarrow> P (last w)"
  by (induction w) (auto split: if_splits)

lemma terminal_class:
  "in_class no_flags [Single (CHR ''.''), Single (CHR ''!''), Single (CHR ''?'')] x
     = (x \<in> {CHR ''.'', CHR ''!'', CHR ''?''})"
  by (auto simp: in_class_def no_flags_def)

lemma surname_class:
  "in_class no_flags [AZ, az, accented, Single (CHR ''-'')] x = is_surname_char x"
  by (auto simp: in_class_def no_flags_def AZ_def az_def accented_def is_surname_char_def
      cp_def Let_def)

lemma found_terminal:
  assumes "found terminal_punctuation e"
  shows "\<exists>pre x. x \<in> {CHR ''.'', CHR ''!'', CHR ''?''} \<and> (e = pre @ [x] \<or> e = pre @ [x, newline])"
proof -
  from found_at [OF assms] obtain pre s' c where
    e: "e = pre @ s'"
    and m: "rmatch terminal_punctuation no_flags
              (if pre = [] then None else Some (last pre), s', []) Some = Some c"
    by blast
  let ?its = "[Single (CHR ''.''), Single (CHR ''!''), Single (CHR ''?'')]"
  let ?p = "if pre = [] then None else Some (last pre)"
  from m have "step (in_class no_flags ?its) (?p, s', []) (\<lambda>c'. rmatch Eol no_flags c' Some) = Some c"
    by (simp add: terminal_punctuation_def)
  from step_Some [OF this] obtain x xs where
    x: "s' = x # xs" "in_class no_flags ?its x" "rmatch Eol no_flags (Some x, xs, []) Some = Some c"
    by blast
  from x(3) have "xs = [] \<or> xs = [newline]"
    by (auto simp: no_flags_def newline_def split: if_splits)
  then show ?thesis
    using e x(1) x(2) unfolding terminal_class by auto
qed

lemma strip_last: "strip y \<noteq> [] \<Longrightarrow> \<not> is_space (last (strip y))"
proof -
  assume ne: "strip y \<noteq> []"
  let ?d = "dropWhile is_space (rev (lstrip y))"
  have s: "strip y = rev ?d" by (simp add: strip_def rstrip_def)
  then have d: "?d \<noteq> []" using ne by simp
  then have "\<not> is_space (hd ?d)" by (rule hd_dropWhile)
  moreover have "last (rev ?d) = hd ?d" using d by (simp add: last_rev)
  ultimately show ?thesis using s by simp
qed

lemma newline_space: "is_space newline"
  by (simp add: is_space_def newline_def cp_def)

lemma terminal_last:
  assumes "found terminal_punctuation (strip y)"
  shows "last (strip y) \<in> {CHR ''.'', CHR ''!'', CHR ''?''}"
proof -
  from found_terminal [OF assms] obtain pre x where
    x: "x \<in> {CHR ''.'', CHR ''!'', CHR ''?''}"
       "strip y = pre @ [x] \<or> strip y = pre @ [x, newline]"
    by blast
  have "strip y \<noteq> pre @ [x, newline]"
  proof
    assume a: "strip y = pre @ [x, newline]"
    then have "strip y \<noteq> []" by simp
    from strip_last [OF this] show False using a newline_space by simp
  qed
  then have "strip y = pre @ [x]" using x(2) by blast
  then show ?thesis using x(1) by simp
qed

lemma found_surname:
  assumes "found surname_comma e"
  shows "starts_with_surname_comma e"
proof -
  from found_at [OF assms] obtain pre s' c where
    e: "e = pre @ s'"
    and m: "rmatch surname_comma no_flags
              (if pre = [] then None else Some (last pre), s', []) Some = Some c"
    by blast
  let ?its = "[AZ, az, accented, Single (CHR ''-'')]"
  have pre: "pre = []"
  proof (rule ccontr)
    assume "pre \<noteq> []"
    then show False using m by (simp add: surname_comma_def no_flags_def)
  qed
  from m pre have "rmatch (Plus (Cls ?its)) no_flags (None, s', [])
        (\<lambda>c'. rmatch (Lit (CHR '','')) no_flags c' Some) = Some c"
    by (simp add: surname_comma_def xname_def no_flags_def)
  from plus_cls [OF this] obtain w s'' p' where
    w: "s' = w @ s''" "w \<noteq> []" "list_all (in_class no_flags ?its) w"
       "rmatch (Lit (CHR '','')) no_flags (p', s'', []) Some = Some c"
    by blast
  from w(4) have "step (lit_eq no_flags (CHR '','')) (p', s'', []) Some = Some c" by simp
  from step_Some [OF this] obtain x xs where x: "s'' = x # xs" "lit_eq no_flags (CHR '','') x"
    by blast
  then have s'': "s'' = CHR '','' # xs" by (simp add: lit_eq_def no_flags_def)
  have all: "\<And>a. a \<in> set w \<Longrightarrow> is_surname_char a"
    using w(3) by (simp add: list_all_iff surname_class)
  have nc: "\<not> is_surname_char (CHR '','')"
    by (simp add: is_surname_char_def cp_def)
  have "takeWhile is_surname_char (w @ CHR '','' # xs) = w"
    using all nc by (simp add: takeWhile_append2)
  moreover have "dropWhile is_surname_char (w @ CHR '','' # xs) = CHR '','' # xs"
    using all nc by (simp add: dropWhile_append2)
  ultimately show ?thesis
    using e pre w(1) w(2) s'' by (simp add: starts_with_surname_comma_def)
qed

section \<open>Adding a pattern to the catalog\<close>
















section \<open>Loading a configuration\<close>









section \<open>The claims\<close>

lemma merged_style_sentinel: "merged_style s = no_citations \<Longrightarrow> s = no_citations"
  by (auto simp: merged_style_def no_citations_def split: if_splits)

text \<open>
  Claim C1, as amended. For every text and every catalog (two tables without repeated
  style names) whose patterns compile, \<open>identify_primary_style\<close> returns a style and a
  confidence between 0 and 1; a confidence of 0 comes only with the sentinel
  \<open>No se detectaron citas\<close>; and the sentinel comes only with confidence 0 provided no
  style of the catalog is itself named \<open>No se detectaron citas\<close>. With a pattern that does
  not compile the call raises, and returns no confidence.
\<close>

theorem identify_primary_style_confidence:
  assumes "wf_detector det"
  shows "(all_compile det \<longrightarrow>
            (\<exists>s c. identify_primary_style det text = Inr (s, c) \<and> 0 \<le> c \<and> c \<le> 1
               \<and> (c = 0 \<longrightarrow> s = no_citations)
               \<and> (s = no_citations
                    \<and> no_citations \<notin> set (keys (in_text_patterns det))
                                      \<union> set (keys (full_citation_patterns det))
                    \<longrightarrow> c = 0)))
         \<and> (\<not> all_compile det \<longrightarrow> (\<exists>e. identify_primary_style det text = Inl e))"
proof (intro conjI impI)
  assume ac: "all_compile det"
  let ?n = "pattern_count_total det text"
  from identify_cases [OF assms ac, of "text"]
  show "\<exists>s c. identify_primary_style det text = Inr (s, c) \<and> 0 \<le> c \<and> c \<le> 1
           \<and> (c = 0 \<longrightarrow> s = no_citations)
           \<and> (s = no_citations
                \<and> no_citations \<notin> set (keys (in_text_patterns det))
                                  \<union> set (keys (full_citation_patterns det))
                \<longrightarrow> c = 0)"
  proof
    assume "?n = 0 \<and> identify_primary_style det text = Inr (no_citations, 0)"
    then show ?thesis by simp
  next
    assume "\<exists>s v. 0 < ?n \<and> identify_primary_style det text = Inr (s, real v / real ?n)
              \<and> 0 < v \<and> v \<le> ?n
              \<and> s \<in> merged_style ` set (keys (in_text_patterns det))
                     \<union> set (keys (full_citation_patterns det))"
    then obtain s v where sv: "0 < ?n"
      "identify_primary_style det text = Inr (s, real v / real ?n)" "0 < v" "v \<le> ?n"
      "s \<in> merged_style ` set (keys (in_text_patterns det))
             \<union> set (keys (full_citation_patterns det))"
      by blast
    have pos: "0 < real v / real ?n" using sv(1,3) by simp
    have le: "real v / real ?n \<le> 1" using sv(1,4) by simp
    have "s = no_citations \<Longrightarrow>
      no_citations \<in> set (keys (in_text_patterns det)) \<union> set (keys (full_citation_patterns det))"
      using sv(5) by (auto dest: merged_style_sentinel [OF sym])
    then show ?thesis
      using sv(2) pos le by auto
  qed
next
  assume "\<not> all_compile det"
  then have "\<And>r. identify_primary_style det text \<noteq> Inr r"
    using identify_compiles [of det "text"] by blast
  then show "\<exists>e. identify_primary_style det text = Inl e"
    by (cases "identify_primary_style det text") auto
qed

text \<open>
  The claim as first stated fails for a catalog that holds a style with the sentinel's name:
  the sentinel is returned with confidence 1.
\<close>

theorem sentinel_style_counterexample:
  "identify_primary_style sentinel_style_detector ''x'' = Inr (no_citations, 1)"
  unfolding identify_primary_style_def detect_sentinel_style
  by (simp add: sentinel_style_combined values_of_def dict_get_def py_div_def
      sentinel_neq sentinel_neq [symmetric])

text \<open>The built-in catalog on the text \<open>(Smith 25)\<close> satisfies the hypotheses of C1.\<close>

theorem identify_primary_style_confidence_witness:
  "wf_detector new_detector \<and> all_compile new_detector
   \<and> no_citations \<notin> set (keys (in_text_patterns new_detector))
                     \<union> set (keys (full_citation_patterns new_detector))
   \<and> (\<exists>s c. identify_primary_style new_detector ''(Smith 25)'' = Inr (s, c)
          \<and> 0 < c \<and> c \<le> 1 \<and> s \<noteq> no_citations)"
  using identify_primary_style_confidence [OF wf_new_detector, of "''(Smith 25)''"]
    wf_new_detector all_compile_new_detector identify_smith
  by (simp add: new_detector_keys no_citations_def)

lemma blank_total:
  assumes "catalog_nonspace det" and "\<forall>c \<in> set s. is_space c"
  shows "pattern_count_total det s = 0"
  using assms
  by (simp add: pattern_count_total_def catalog_nonspace_def style_totals_blank)

lemma identify_blank:
  assumes "wf_detector det" and "catalog_nonspace det" and "\<forall>c \<in> set s. is_space c"
  shows "identify_primary_style det s = Inr (no_citations, 0)"
  using identify_cases [OF assms(1) catalog_nonspace_compiles [OF assms(2)], of s]
    blank_total [OF assms(2,3)]
  by auto

lemma extract_citations_none:
  "identify_primary_style det s = Inr (no_citations, c) \<Longrightarrow>
   extract_citations det s = Inr \<lparr>en_texto = [], bibliograficas = []\<rparr>"
  by (simp add: extract_citations_def)

text \<open>
  Claim C2, as amended. With a catalog (two tables without repeated style names) whose
  patterns all compile, \<open>identify_primary_style\<close> never raises: it returns a result for
  every text. If moreover every pattern of the catalog passes the check \<open>starts_nonspace\<close>,
  so that each of its matches starts with a character that is not white space, then for the
  empty string and for every text of white space only it returns the sentinel
  \<open>No se detectaron citas\<close> with confidence 0, and \<open>extract_citations\<close> returns two empty
  lists. The built-in catalog is such a catalog.
\<close>

theorem never_raises_and_blank_text:
  "(wf_detector det \<and> all_compile det \<longrightarrow> (\<exists>r. identify_primary_style det text = Inr r))
   \<and> (wf_detector det \<and> catalog_nonspace det \<and> (\<forall>c \<in> set blank. is_space c) \<longrightarrow>
        identify_primary_style det blank = Inr (no_citations, 0)
        \<and> extract_citations det blank = Inr \<lparr>en_texto = [], bibliograficas = []\<rparr>)
   \<and> wf_detector new_detector \<and> all_compile new_detector \<and> catalog_nonspace new_detector"
proof -
  have "wf_detector det \<and> all_compile det \<Longrightarrow> \<exists>r. identify_primary_style det text = Inr r"
    using identify_cases [of det "text"] by auto
  moreover have "wf_detector det \<and> catalog_nonspace det \<and> (\<forall>c \<in> set blank. is_space c) \<Longrightarrow>
        identify_primary_style det blank = Inr (no_citations, 0)
        \<and> extract_citations det blank = Inr \<lparr>en_texto = [], bibliograficas = []\<rparr>"
    using identify_blank [of det blank] extract_citations_none by blast
  ultimately show ?thesis
    using wf_new_detector all_compile_new_detector catalog_nonspace_new_detector by blast
qed

text \<open>
  The claim as first stated fails for catalogs that hold custom patterns. With a custom
  pattern that does not compile, \<open>identify_primary_style\<close> raises \<open>re.error\<close>, on the empty
  string as on every text; with the custom pattern \<^verbatim>\<open>x*\<close>, which has an empty match, the
  empty string is given the custom style with confidence 1.
\<close>

theorem custom_pattern_counterexample:
  "wf_detector malformed_pattern_detector
   \<and> identify_primary_style malformed_pattern_detector [] = Inl ReError
   \<and> wf_detector star_pattern_detector \<and> all_compile star_pattern_detector
   \<and> identify_primary_style star_pattern_detector [] = Inr (''X'', 1)"
  using wf_malformed_pattern_detector identify_malformed wf_star_pattern_detector
    all_compile_star_pattern_detector identify_star
  by simp

text \<open>
  The built-in catalog on the text \<open>(Smith 25)\<close>, on the empty string, and on the text of a
  space, a tab and a line feed.
\<close>

theorem never_raises_and_blank_text_witness:
  "wf_detector new_detector \<and> all_compile new_detector \<and> catalog_nonspace new_detector
   \<and> (\<exists>r. identify_primary_style new_detector ''(Smith 25)'' = Inr r)
   \<and> is_space (CHR '' '') \<and> is_space (CHR 0x09) \<and> is_space (CHR 0x0A)
   \<and> identify_primary_style new_detector [] = Inr (no_citations, 0)
   \<and> extract_citations new_detector [] = Inr \<lparr>en_texto = [], bibliograficas = []\<rparr>
   \<and> identify_primary_style new_detector [CHR '' '', CHR 0x09, CHR 0x0A] = Inr (no_citations, 0)
   \<and> extract_citations new_detector [CHR '' '', CHR 0x09, CHR 0x0A]
       = Inr \<lparr>en_texto = [], bibliograficas = []\<rparr>"
proof -
  have sp: "is_space (CHR '' '')" "is_space (CHR 0x09)" "is_space (CHR 0x0A)"
    by (simp_all add: is_space_def cp_def)
  show ?thesis
    using never_raises_and_blank_text [of new_detector "''(Smith 25)''" "[]"]
      never_raises_and_blank_text [of new_detector "''(Smith 25)''" "[CHR '' '', CHR 0x09, CHR 0x0A]"]
      sp
    by simp
qed

lemma not_in_range:
  "s = n \<or> s \<in> f ` A \<union> B \<Longrightarrow> t \<notin> range f \<Longrightarrow> n \<noteq> t \<Longrightarrow> t \<notin> B \<Longrightarrow> s \<noteq> t"
  by blast

text \<open>
  Claim C3, as amended. For every text and every catalog (two tables without repeated style
  names) whose patterns compile, the combined score of \<open>CHICAGO\<close> in
  \<open>identify_primary_style\<close> is the in-text count of \<open>CHICAGO_AUTHOR_DATE\<close> plus the
  in-text count of \<open>CHICAGO_NOTES\<close>, plus the in-text count of a style named \<open>CHICAGO\<close>
  itself, plus the full-citation count of \<open>CHICAGO\<close>, where a style that a table lacks
  counts 0; and the style that \<open>identify_primary_style\<close> returns is neither of the two
  sub-style tags, provided the full-citation table holds no style with that name. (The
  built-in catalog has no in-text style \<open>CHICAGO\<close> and no full-citation style with the
  name of a sub-style.)
\<close>

theorem chicago_fusion:
  assumes "wf_detector det" and "all_compile det"
  shows "\<exists>res comb s c.
     detect_citation_styles det text = Inr res
     \<and> combined_results det res = Inr comb
     \<and> dict_get_default comb ''CHICAGO'' 0 =
          dict_get_default (in_text res) ''CHICAGO_AUTHOR_DATE'' 0
        + dict_get_default (in_text res) ''CHICAGO_NOTES'' 0
        + dict_get_default (in_text res) ''CHICAGO'' 0
        + dict_get_default (full_citation res) ''CHICAGO'' 0
     \<and> identify_primary_style det text = Inr (s, c)
     \<and> (''CHICAGO_AUTHOR_DATE'' \<notin> set (keys (full_citation_patterns det))
          \<longrightarrow> s \<noteq> ''CHICAGO_AUTHOR_DATE'')
     \<and> (''CHICAGO_NOTES'' \<notin> set (keys (full_citation_patterns det))
          \<longrightarrow> s \<noteq> ''CHICAGO_NOTES'')"
proof -
  let ?res = "\<lparr>in_text = style_totals (in_text_patterns det) text,
               full_citation = style_totals (full_citation_patterns det) text\<rparr>"
  have d: "detect_citation_styles det text = Inr ?res"
    by (rule detect_ok [OF assms])
  from combined_chicago [OF assms(1), of "text"]
  obtain comb where comb: "combined_results det ?res = Inr comb"
    "dict_get_default comb ''CHICAGO'' 0 =
          dict_get_default (in_text ?res) ''CHICAGO_AUTHOR_DATE'' 0
        + dict_get_default (in_text ?res) ''CHICAGO_NOTES'' 0
        + dict_get_default (in_text ?res) ''CHICAGO'' 0
        + dict_get_default (full_citation ?res) ''CHICAGO'' 0"
    by blast
  from identify_cases [OF assms, of "text"]
  obtain s c where s: "identify_primary_style det text = Inr (s, c)"
    "s = no_citations \<or> s \<in> merged_style ` set (keys (in_text_patterns det))
             \<union> set (keys (full_citation_patterns det))"
    by blast
  have m: "''CHICAGO_AUTHOR_DATE'' \<notin> range merged_style" "''CHICAGO_NOTES'' \<notin> range merged_style"
    by (auto simp: merged_style_def)
  have n: "no_citations \<noteq> ''CHICAGO_AUTHOR_DATE''" "no_citations \<noteq> ''CHICAGO_NOTES''"
    by (simp_all add: no_citations_def)
  have "''CHICAGO_AUTHOR_DATE'' \<notin> set (keys (full_citation_patterns det))
          \<Longrightarrow> s \<noteq> ''CHICAGO_AUTHOR_DATE''"
    by (rule not_in_range [OF s(2) m(1) n(1)])
  moreover have "''CHICAGO_NOTES'' \<notin> set (keys (full_citation_patterns det))
          \<Longrightarrow> s \<noteq> ''CHICAGO_NOTES''"
    by (rule not_in_range [OF s(2) m(2) n(2)])
  ultimately show ?thesis
    using d comb s(1) by blast
qed

text \<open>
  The claim as first stated fails in three ways. The per-style counts that
  \<open>detect_citation_styles\<close>, a public operation, returns are keyed by both sub-style tags,
  with the built-in catalog and the empty text as with every other. With a full-citation
  style named \<open>CHICAGO_NOTES\<close> and the pattern \<open>x\<close>, \<open>identify_primary_style\<close> returns
  the sub-style tag on the text \<open>x\<close>. With an in-text style named \<open>CHICAGO\<close> and the
  pattern \<open>x\<close>, the combined score of \<open>CHICAGO\<close> on the text \<open>x\<close> is 1, and the three
  counts of the claim are 0.
\<close>

theorem substyle_tags_counterexample:
  "detect_citation_styles new_detector [] =
     Inr \<lparr>in_text = [(''APA'', 0), (''MLA'', 0), (''CHICAGO_AUTHOR_DATE'', 0),
                      (''CHICAGO_NOTES'', 0), (''HARVARD'', 0), (''IEEE'', 0),
                      (''VANCOUVER'', 0), (''CSE'', 0)],
          full_citation = [(''APA'', 0), (''MLA'', 0), (''CHICAGO'', 0), (''HARVARD'', 0),
                            (''IEEE'', 0), (''VANCOUVER'', 0), (''CSE'', 0)]\<rparr>
   \<and> identify_primary_style notes_style_detector ''x'' = Inr (''CHICAGO_NOTES'', 1)
   \<and> detect_citation_styles chicago_style_detector ''x'' =
     Inr \<lparr>in_text = [(''APA'', 0), (''MLA'', 0), (''CHICAGO_AUTHOR_DATE'', 0),
                      (''CHICAGO_NOTES'', 0), (''HARVARD'', 0), (''IEEE'', 0),
                      (''VANCOUVER'', 0), (''CSE'', 0), (''CHICAGO'', 1)],
          full_citation = [(''APA'', 0), (''MLA'', 0), (''CHICAGO'', 0), (''HARVARD'', 0),
                            (''IEEE'', 0), (''VANCOUVER'', 0), (''CSE'', 0)]\<rparr>
   \<and> combined_results chicago_style_detector
        \<lparr>in_text = [(''APA'', 0), (''MLA'', 0), (''CHICAGO_AUTHOR_DATE'', 0),
                    (''CHICAGO_NOTES'', 0), (''HARVARD'', 0), (''IEEE'', 0),
                    (''VANCOUVER'', 0), (''CSE'', 0), (''CHICAGO'', 1)],
         full_citation = [(''APA'', 0), (''MLA'', 0), (''CHICAGO'', 0), (''HARVARD'', 0),
                          (''IEEE'', 0), (''VANCOUVER'', 0), (''CSE'', 0)]\<rparr>
     = Inr [(''APA'', 0), (''MLA'', 0), (''CHICAGO'', 1), (''HARVARD'', 0), (''IEEE'', 0),
            (''VANCOUVER'', 0), (''CSE'', 0)]"
  using detect_empty identify_notes_style detect_chicago_style
  by (simp add: chicago_style_combined)

text \<open>
  The built-in catalog on the text \<open>(Smith 2020, 15)\<close>: one match of
  \<open>CHICAGO_AUTHOR_DATE\<close> and one of \<open>CSE\<close>; the style returned is \<open>CHICAGO\<close>.
\<close>

theorem chicago_fusion_witness:
  "wf_detector new_detector \<and> all_compile new_detector
   \<and> ''CHICAGO_AUTHOR_DATE'' \<notin> set (keys (full_citation_patterns new_detector))
   \<and> ''CHICAGO_NOTES'' \<notin> set (keys (full_citation_patterns new_detector))
   \<and> (\<exists>res comb.
         detect_citation_styles new_detector ''(Smith 2020, 15)'' = Inr res
         \<and> combined_results new_detector res = Inr comb
         \<and> dict_get_default (in_text res) ''CHICAGO_AUTHOR_DATE'' 0 = 1
         \<and> dict_get_default (in_text res) ''CHICAGO_NOTES'' 0 = 0
         \<and> dict_get_default (in_text res) ''CHICAGO'' 0 = 0
         \<and> dict_get_default (full_citation res) ''CHICAGO'' 0 = 0
         \<and> dict_get_default comb ''CHICAGO'' 0 = 1)
   \<and> identify_primary_style new_detector ''(Smith 2020, 15)'' = Inr (''CHICAGO'', 1 / 2)"
  using chicago_fusion [OF wf_new_detector all_compile_new_detector, of "''(Smith 2020, 15)''"]
    wf_new_detector all_compile_new_detector detect_chicago identify_chicago
  by (auto simp: new_detector_keys dict_get_default_def)










lemma unique_firsts: "unique cs seen acc = acc @ firsts seen cs"
  by (induction cs arbitrary: seen acc) auto

lemma firsts_set: "set (firsts seen cs) = set cs - set seen"
  by (induction cs arbitrary: seen) auto

lemma firsts_distinct: "distinct (firsts seen cs)"
  by (induction cs arbitrary: seen) (auto simp: firsts_set)

lemma first_index_Cons:
  "first_index a (x # xs) = (if a = x then 0 else Suc (first_index a xs))"
  by (auto simp: first_index_def)

lemma firsts_order:
  "sorted_wrt (\<lambda>a b. first_index a cs < first_index b cs) (firsts seen cs)"
proof (induction cs arbitrary: seen)
  case Nil
  then show ?case by simp
next
  case (Cons x xs)
  have mono: "\<And>s. x \<in> set s \<Longrightarrow>
     sorted_wrt (\<lambda>a b. first_index a (x # xs) < first_index b (x # xs)) (firsts s xs)"
  proof -
    fix s assume xs: "x \<in> set s"
    have "\<And>a b. a \<in> set (firsts s xs) \<Longrightarrow> b \<in> set (firsts s xs) \<Longrightarrow>
       first_index a xs < first_index b xs \<Longrightarrow>
       first_index a (x # xs) < first_index b (x # xs)"
      using xs by (auto simp: firsts_set first_index_Cons)
    then show "sorted_wrt (\<lambda>a b. first_index a (x # xs) < first_index b (x # xs)) (firsts s xs)"
      using Cons.IH [of s] by (rule_tac sorted_wrt_mono_rel) auto
  qed
  show ?case
  proof (cases "x \<in> set seen")
    case True
    then show ?thesis using mono [of seen] by simp
  next
    case False
    have "\<forall>b \<in> set (firsts (x # seen) xs). first_index x (x # xs) < first_index b (x # xs)"
      by (auto simp: firsts_set first_index_Cons)
    then show ?thesis using False mono [of "x # seen"] by simp
  qed
qed

text \<open>
  Claim C5, as amended. On Python up to 3.10, for every text and style,
  \<open>extract_in_text_citations\<close> of the extractor returns a list without repetition, holding
  the matches that were collected, in the order of their first occurrence among them. From
  Python 3.11 it raises \<open>re.error\<close> for every text, because the pattern that looks for the
  header of the bibliography carries a flag in the middle of its source. The lists that
  \<open>extract_citations\<close> of the detector returns (it returns whenever the patterns of the
  catalog compile) are without repetition too, and in ascending order.
\<close>

theorem extraction_deduplicated:
  "(\<exists>collected cs.
      collected_in_text Before_3_11 ex text style = Inr collected
      \<and> extract_in_text_citations Before_3_11 ex text style = Inr cs
      \<and> distinct cs \<and> set cs = set collected
      \<and> sorted_wrt (\<lambda>a b. first_index a collected < first_index b collected) cs)
   \<and> extract_in_text_citations From_3_11 ex text style = Inl ReError
   \<and> (wf_detector det \<and> all_compile det \<longrightarrow> (\<exists>c. extract_citations det document = Inr c))
   \<and> (\<forall>c. extract_citations det document = Inr c \<longrightarrow>
          distinct (en_texto c) \<and> sorted (en_texto c)
          \<and> distinct (bibliograficas c) \<and> sorted (bibliograficas c))"
proof -
  have d: "\<And>c. extract_citations det document = Inr c \<Longrightarrow>
          distinct (en_texto c) \<and> sorted (en_texto c)
          \<and> distinct (bibliograficas c) \<and> sorted (bibliograficas c)"
    by (auto simp: extract_citations_def sorted_set_def split: sum.splits if_splits)
  obtain main_text where m: "extract_main_text Before_3_11 text = Inr main_text"
    using extract_main_text_legacy by blast
  then obtain collected where c: "collected_in_text Before_3_11 ex text style = Inr collected"
    by (simp add: collected_in_text_def)
  have e: "extract_in_text_citations Before_3_11 ex text style = Inr (firsts [] collected)"
    using c by (simp add: extract_in_text_citations_def unique_firsts)
  have "distinct (firsts [] collected)" "set (firsts [] collected) = set collected"
    "sorted_wrt (\<lambda>a b. first_index a collected < first_index b collected) (firsts [] collected)"
    using firsts_order [of collected "[]"] by (simp_all add: firsts_distinct firsts_set)
  then have "\<exists>collected cs.
      collected_in_text Before_3_11 ex text style = Inr collected
      \<and> extract_in_text_citations Before_3_11 ex text style = Inr cs
      \<and> distinct cs \<and> set cs = set collected
      \<and> sorted_wrt (\<lambda>a b. first_index a collected < first_index b collected) cs"
    using c e by blast
  then show ?thesis
    using d extract_in_text_strict [of ex "text" style] extract_citations_compiles [of det document]
    by blast
qed

lemma ba_extract:
  "extract_citations new_detector ''(b 2) (a 1)''
     = Inr \<lparr>en_texto = [''(a 1)'', ''(b 2)''], bibliograficas = []\<rparr>"
  by code_simp

lemma ba_collected:
  "matched_texts (compiled mla_in_text) ''(b 2) (a 1)'' [] = Inr [''(b 2)'', ''(a 1)'']"
  by code_simp

lemma twice_bibliography:
  "extract_bibliography_citations Before_3_11
     (''References'' @ [newline] @ ''Smith, J. (2020). Title of book.'' @ [newline]
        @ ''Smith, J. (2020). Title of book.'') ''APA''
   = Inr [''Smith, J. (2020). Title of book.'', ''Smith, J. (2020). Title of book.'']"
  by code_simp

lemma li_wu:
  "collected_in_text Before_3_11 \<lparr>ext_patterns = None\<rparr>
     ''(Li, 2020) (Wu, 2019) (Li, 2020)'' ''APA''
     = Inr [''(Li, 2020)'', ''(Wu, 2019)'', ''(Li, 2020)'']"
  by code_simp

text \<open>
  The claim as first stated fails twice. The detector sorts what it has collected: of
  \<open>(b 2) (a 1)\<close> it collects \<open>(b 2)\<close> first and returns \<open>(a 1)\<close> first. And
  \<open>extract_bibliography_citations\<close> of the extractor, where it returns (on Python up to
  3.10), removes no duplicates: an entry that stands twice in the bibliography is returned
  twice.
\<close>

theorem extraction_order_counterexample:
  "extract_citations new_detector ''(b 2) (a 1)''
     = Inr \<lparr>en_texto = [''(a 1)'', ''(b 2)''], bibliograficas = []\<rparr>
   \<and> matched_texts (compiled mla_in_text) ''(b 2) (a 1)'' [] = Inr [''(b 2)'', ''(a 1)'']
   \<and> extract_bibliography_citations Before_3_11
        (''References'' @ [newline] @ ''Smith, J. (2020). Title of book.'' @ [newline]
           @ ''Smith, J. (2020). Title of book.'') ''APA''
      = Inr [''Smith, J. (2020). Title of book.'', ''Smith, J. (2020). Title of book.'']"
  using ba_extract ba_collected twice_bibliography by simp

text \<open>
  Three citations, the first repeated, and the two lists of the detector for another text.
\<close>

theorem extraction_deduplicated_witness:
  "collected_in_text Before_3_11 \<lparr>ext_patterns = None\<rparr>
     ''(Li, 2020) (Wu, 2019) (Li, 2020)'' ''APA''
     = Inr [''(Li, 2020)'', ''(Wu, 2019)'', ''(Li, 2020)'']
   \<and> extract_in_text_citations Before_3_11 \<lparr>ext_patterns = None\<rparr>
       ''(Li, 2020) (Wu, 2019) (Li, 2020)'' ''APA''
     = Inr [''(Li, 2020)'', ''(Wu, 2019)'']
   \<and> extract_in_text_citations From_3_11 \<lparr>ext_patterns = None\<rparr>
       ''(Li, 2020) (Wu, 2019) (Li, 2020)'' ''APA''
     = Inl ReError
   \<and> wf_detector new_detector \<and> all_compile new_detector
   \<and> extract_citations new_detector ''(b 2) (a 1)''
     = Inr \<lparr>en_texto = [''(a 1)'', ''(b 2)''], bibliograficas = []\<rparr>"
  using extraction_deduplicated [of "\<lparr>ext_patterns = None\<rparr>"
      "''(Li, 2020) (Wu, 2019) (Li, 2020)''" "''APA''" new_detector "''(b 2) (a 1)''"]
    li_wu ba_extract wf_new_detector all_compile_new_detector
  by (simp add: extract_in_text_citations_def)

lemma split_when_concat: "concat (split_when P s) = filter (\<lambda>c. \<not> P c) s"
  by (induction s) (auto split: list.splits)

lemma split_ws_empty: "split_ws s = [] \<Longrightarrow> \<forall>c \<in> set s. is_space c"
proof -
  assume "split_ws s = []"
  then have "\<forall>w \<in> set (split_when is_space s). w = []"
    by (auto simp: split_ws_def filter_empty_conv)
  then have "concat (split_when is_space s) = []"
    by simp
  then have "filter (\<lambda>c. \<not> is_space c) s = []"
    by (simp add: split_when_concat)
  then show ?thesis
    by (simp add: filter_empty_conv)
qed

lemma rstrip_Cons: "\<not> is_space x \<Longrightarrow> \<exists>ys. rstrip (x # xs) = x # ys"
proof -
  assume x: "\<not> is_space x"
  have "dropWhile is_space (rev xs @ [x]) = dropWhile is_space (rev xs) @
          (if \<forall>c \<in> set (rev xs). is_space c then dropWhile is_space [x] else [x])"
    by (simp add: dropWhile_append)
  then have "rev (dropWhile is_space (rev (x # xs))) = x # rev (dropWhile is_space (rev xs))"
    using x by (auto simp: dropWhile_append)
  then show ?thesis by (simp add: rstrip_def)
qed

lemma strip_hd: "strip t = x # xs \<Longrightarrow> \<not> is_space x"
proof -
  assume a: "strip t = x # xs"
  show ?thesis
  proof (cases "lstrip t")
    case Nil
    then show ?thesis using a by (simp add: strip_def rstrip_def)
  next
    case (Cons y ys)
    then have y: "\<not> is_space y"
      unfolding lstrip_def by (metis hd_dropWhile list.distinct(1) list.sel(1))
    from rstrip_Cons [OF y, of ys] a Cons show ?thesis
      using y by (auto simp: strip_def)
  qed
qed

lemma main_author_strip: "\<exists>r. main_author (strip t) = Inr r"
proof (cases "contains (strip t) '' ''")
  case False
  then show ?thesis by (simp add: main_author_def)
next
  case True
  then have "strip t \<noteq> []" by auto
  then obtain x xs where s: "strip t = x # xs" by (cases "strip t") auto
  have "\<not> is_space x" by (rule strip_hd [OF s])
  then have "split_ws (strip t) \<noteq> []"
    using split_ws_empty [of "strip t"] s by auto
  then show ?thesis
    using True by (auto simp: main_author_def first_token_def split: list.splits)
qed

lemma main_author_normalized: "\<exists>r. main_author (normalize_author_name a) = Inr r"
  unfolding normalize_author_name_def Let_def by (rule main_author_strip)

text \<open>
  Claim C6. Author-name matching is symmetric: for all author strings \<open>a\<close> and \<open>b\<close>,
  \<open>_match_author_names(a, b)\<close> and \<open>_match_author_names(b, a)\<close> are the same, both
  arguments being normalised first; and the comparison always returns a truth value, it
  never raises.
\<close>

theorem match_author_names_symmetric:
  "match_author_names a b = match_author_names b a \<and> (\<exists>r. match_author_names a b = Inr r)"
proof -
  obtain ra where ra: "main_author (normalize_author_name a) = Inr ra"
    using main_author_normalized by blast
  obtain rb where rb: "main_author (normalize_author_name b) = Inr rb"
    using main_author_normalized by blast
  show ?thesis
    unfolding match_author_names_def Let_def ra rb by auto
qed

lemma keys_author_only_year:
  "keys_author_only ms = Inr ks \<Longrightarrow> (a, y) \<in> set ks \<Longrightarrow> y = []"
  by (induction ms arbitrary: ks) (auto split: sum.splits)

lemma citation_key_of_mla: "citation_key_of ''MLA'' c = Some k \<Longrightarrow> snd k = Some []"
  by (auto simp: citation_key_of_def split: option.splits)

lemma validator_keys_mla:
  "k \<in> set (validator_extract_citation_keys cs ''MLA'') \<Longrightarrow> snd k = Some []"
  by (induction cs) (auto split: option.splits dest: citation_key_of_mla)

text \<open>
  Claim C7. For every text, every key that the detector's \<open>_extract_citation_keys\<close> returns
  for the style MLA has the empty string as its year; so has every key that the validator's
  \<open>_extract_citation_keys\<close> returns for MLA, for every list of citations.
\<close>

theorem mla_keys_empty_year:
  "(\<forall>ks. extract_citation_keys text ''MLA'' = Inr ks \<longrightarrow> (\<forall>k \<in> set ks. snd k = []))
   \<and> (\<forall>k \<in> set (validator_extract_citation_keys citations ''MLA''). snd k = Some [])"
proof -
  have "\<And>ks k. extract_citation_keys text ''MLA'' = Inr ks \<Longrightarrow> k \<in> set ks \<Longrightarrow> snd k = []"
    by (auto simp: extract_citation_keys_def list_of_set_def split: sum.splits
        dest: keys_author_only_year)
  then show ?thesis
    using validator_keys_mla by blast
qed

lemma validator_keys_smith:
  "validator_extract_citation_keys [''(Smith 25)''] ''MLA'' = [(Some ''Smith'', Some [])]"
  by code_simp

text \<open>On \<open>(Smith 25)\<close> both extractions return one key, with the empty year.\<close>

theorem mla_keys_empty_year_witness:
  "extract_citation_keys ''(Smith 25)'' ''MLA'' = Inr [(''Smith'', [])]
   \<and> validator_extract_citation_keys [''(Smith 25)''] ''MLA'' = [(Some ''Smith'', Some [])]
   \<and> snd (''Smith'', []::string) = []"
  using mla_keys_empty_year [of "''(Smith 25)''" "[''(Smith 25)'']"] keys_smith
    validator_keys_smith
  by simp

text \<open>
  Claim C8 (Scenario B). On the text \<open>(Smith 25)\<close> the built-in detector finds one match,
  of the first MLA in-text pattern, and none of any other pattern: the primary style is MLA
  with confidence 1, and the citation keys extracted for MLA are the single pair of the
  author \<open>Smith\<close> and the empty year.
\<close>

theorem scenario_b:
  "identify_primary_style new_detector ''(Smith 25)'' = Inr (''MLA'', 1)
   \<and> extract_citation_keys ''(Smith 25)'' ''MLA'' = Inr [(''Smith'', [])]"
  using identify_smith keys_smith by simp

lemma bibliography_entry:
  assumes "extract_bibliography_citations version text style = Inr es" and "e \<in> set es"
  shows "\<exists>y. e = strip y \<and> is_valid_citation e style ''bibliography''"
  using assms
  by (auto simp: extract_bibliography_citations_def split: sum.splits if_splits)

lemma valid_bibliography:
  assumes "is_valid_citation e style ''bibliography''"
  shows "found terminal_punctuation e" "20 \<le> length e" "length e \<le> 1000"
    "style \<in> {''APA'', ''MLA'', ''CHICAGO'', ''HARVARD''} \<Longrightarrow> found surname_comma e"
proof -
  have "\<not> found terminal_punctuation e \<Longrightarrow> \<not> is_valid_citation e style ''bibliography''"
    by (simp add: is_valid_citation_def)
  then show "found terminal_punctuation e" using assms by blast
  have "length e < 20 \<Longrightarrow> \<not> is_valid_citation e style ''bibliography''"
    by (simp add: is_valid_citation_def)
  then show "20 \<le> length e" using assms by fastforce
  have "1000 < length e \<Longrightarrow> \<not> is_valid_citation e style ''bibliography''"
    by (simp add: is_valid_citation_def)
  then show "length e \<le> 1000" using assms by fastforce
  have "style \<in> {''APA'', ''MLA'', ''CHICAGO'', ''HARVARD''} \<Longrightarrow> \<not> found surname_comma e
      \<Longrightarrow> \<not> is_valid_citation e style ''bibliography''"
    by (simp add: is_valid_citation_def)
  then show "found surname_comma e" if "style \<in> {''APA'', ''MLA'', ''CHICAGO'', ''HARVARD''}"
    using assms that by blast
qed

lemma lowercase_entry:
  "extract_bibliography_citations Before_3_11
     (''References'' @ [newline] @ ''smith, j. (2020). title of the book.'') ''APA''
   = Inr [''smith, j. (2020). title of the book.'']"
  by code_simp

lemma lowercase_shape:
  "\<not> starts_with_capitalized_word_comma ''smith, j. (2020). title of the book.''"
  by code_simp

lemma unnumbered_entry:
  "extract_bibliography_citations Before_3_11
     (''References'' @ [newline] @ ''Published by X in 2020.'') ''IEEE''
   = Inr [''References Published by X in 2020.'']"
  by code_simp

lemma unnumbered_shape:
  "\<not> starts_with_bracket_number ''References Published by X in 2020.''"
  "\<not> starts_with_number_dot ''References Published by X in 2020.''"
  by code_simp+

lemma smith_entry:
  "extract_bibliography_citations Before_3_11
     (''References'' @ [newline] @ ''Smith, J. (2020). Title of the book.'') ''APA''
   = Inr [''Smith, J. (2020). Title of the book.'']"
  by code_simp

text \<open>
  Claim C9, as amended. On Python up to 3.10, \<open>extract_bibliography_citations\<close> returns
  for every text and style, and every string that it returns has passed the validity
  filter: its length is at least 20 and at most 1000, its last character is \<open>.\<close>, \<open>!\<close> or
  \<open>?\<close>, and for the styles \<open>APA\<close>, \<open>MLA\<close>, \<open>CHICAGO\<close> and \<open>HARVARD\<close> it begins with a
  run of letters (of either case) and hyphens that a comma follows. From Python 3.11 the
  call raises \<open>re.error\<close> for every text, because the pattern that looks for the header of
  the bibliography carries a flag in the middle of its source.
\<close>

theorem bibliography_entries_valid:
  "(\<exists>es. extract_bibliography_citations Before_3_11 text style = Inr es
      \<and> (\<forall>e \<in> set es.
            20 \<le> length e \<and> length e \<le> 1000
            \<and> last e \<in> {CHR ''.'', CHR ''!'', CHR ''?''}
            \<and> (style \<in> {''APA'', ''MLA'', ''CHICAGO'', ''HARVARD''}
                 \<longrightarrow> starts_with_surname_comma e)))
   \<and> extract_bibliography_citations From_3_11 text style = Inl ReError"
proof -
  obtain es where es: "extract_bibliography_citations Before_3_11 text style = Inr es"
    using extract_bibliography_legacy by blast
  have "20 \<le> length e \<and> length e \<le> 1000
            \<and> last e \<in> {CHR ''.'', CHR ''!'', CHR ''?''}
            \<and> (style \<in> {''APA'', ''MLA'', ''CHICAGO'', ''HARVARD''}
                 \<longrightarrow> starts_with_surname_comma e)" if "e \<in> set es" for e
  proof -
    from bibliography_entry [OF es that] obtain y where
      y: "e = strip y" and v: "is_valid_citation e style ''bibliography''"
      by blast
    note f = valid_bibliography [OF v]
    have "last e \<in> {CHR ''.'', CHR ''!'', CHR ''?''}"
      using terminal_last [of y] f(1) y by simp
    moreover have "style \<in> {''APA'', ''MLA'', ''CHICAGO'', ''HARVARD''}
                 \<Longrightarrow> starts_with_surname_comma e"
      using f(4) found_surname by blast
    ultimately show ?thesis using f(2,3) by blast
  qed
  then show ?thesis
    using es extract_bibliography_strict [of "text" style] by blast
qed

text \<open>
  The claim as first stated fails twice. For \<open>APA\<close> the filter asks for letters of either
  case before the comma: an entry that begins with a lower-case word is returned. For
  \<open>IEEE\<close> the pattern \<^verbatim>\<open>^\[\d+\]|\d+\.\<close> is tried with \<open>re.search\<close>, and its second
  alternative is not tied to the start: an entry that holds \<open>2020.\<close> at its end is returned,
  though it begins with neither \<open>[n]\<close> nor \<open>n.\<close>.
\<close>

theorem accepted_shapes_counterexample:
  "extract_bibliography_citations Before_3_11
     (''References'' @ [newline] @ ''smith, j. (2020). title of the book.'') ''APA''
   = Inr [''smith, j. (2020). title of the book.'']
   \<and> \<not> starts_with_capitalized_word_comma ''smith, j. (2020). title of the book.''
   \<and> extract_bibliography_citations Before_3_11
     (''References'' @ [newline] @ ''Published by X in 2020.'') ''IEEE''
   = Inr [''References Published by X in 2020.'']
   \<and> \<not> starts_with_bracket_number ''References Published by X in 2020.''
   \<and> \<not> starts_with_number_dot ''References Published by X in 2020.''"
  using lowercase_entry lowercase_shape unnumbered_entry unnumbered_shape by simp

text \<open>A bibliography of one entry, for the style \<open>APA\<close>.\<close>

theorem bibliography_entries_valid_witness:
  "extract_bibliography_citations Before_3_11
     (''References'' @ [newline] @ ''Smith, J. (2020). Title of the book.'') ''APA''
   = Inr [''Smith, J. (2020). Title of the book.'']
   \<and> length ''Smith, J. (2020). Title of the book.'' = 36
   \<and> last ''Smith, J. (2020). Title of the book.'' = CHR ''.''
   \<and> starts_with_surname_comma ''Smith, J. (2020). Title of the book.''
   \<and> extract_bibliography_citations From_3_11
     (''References'' @ [newline] @ ''Smith, J. (2020). Title of the book.'') ''APA''
   = Inl ReError"
  using bibliography_entries_valid
      [of "''References'' @ [newline] @ ''Smith, J. (2020). Title of the book.''" "''APA''"]
    smith_entry
  by simp

lemma header_votes_none:
  "\<forall>h \<in> set hs. re_search (header_pattern h) IGNORECASE_MULTILINE text = None \<Longrightarrow>
   header_votes style hs text d = d"
  by (induction hs arbitrary: d) auto

lemma all_header_votes_none:
  "\<forall>h \<in> set (concat (map snd items)).
      re_search (header_pattern h) IGNORECASE_MULTILINE text = None \<Longrightarrow>
   all_header_votes items text d = d"
  by (induction items arbitrary: d) (auto simp: header_votes_none)

lemma update_zero: "\<forall>v \<in> snd ` set d. v = 0 \<Longrightarrow> \<forall>v \<in> snd ` set (AList.update k (0::nat) d). v = 0"
  by (induction d) auto

lemma get_default_zero: "\<forall>v \<in> snd ` set d. v = 0 \<Longrightarrow> dict_get_default d k (0::nat) = 0"
  by (auto simp: dict_get_default_def split: option.splits dest!: map_of_SomeD)

lemma pattern_votes_zero:
  "\<forall>p \<in> set ps. re_findall p no_flags text = [] \<Longrightarrow> \<forall>v \<in> snd ` set d. v = 0 \<Longrightarrow>
   \<forall>v \<in> snd ` set (pattern_votes style ps text d). v = 0"
proof (induction ps arbitrary: d)
  case Nil
  then show ?case by simp
next
  case (Cons p ps)
  have c: "counts_add d style (length (re_findall p no_flags text)) = AList.update style 0 d"
    using Cons.prems by (simp add: counts_add_def get_default_zero)
  have ps: "\<forall>p \<in> set ps. re_findall p no_flags text = []"
    using Cons.prems(1) by simp
  have "\<forall>v \<in> snd ` set (pattern_votes style ps text (AList.update style 0 d)). v = 0"
    by (rule Cons.IH [OF ps update_zero [OF Cons.prems(2)]])
  then show ?case
    by (simp only: pattern_votes.simps c)
qed

lemma all_pattern_votes_zero:
  "\<forall>(style, ps) \<in> set items. \<forall>p \<in> set ps. re_findall p no_flags text = [] \<Longrightarrow>
   \<forall>v \<in> snd ` set d. v = 0 \<Longrightarrow>
   \<forall>v \<in> snd ` set (all_pattern_votes items text d). v = 0"
proof (induction items arbitrary: d)
  case Nil
  then show ?case by simp
next
  case (Cons it items)
  obtain style ps where it: "it = (style, ps)" by (cases it)
  have ps: "\<forall>p \<in> set ps. re_findall p no_flags text = []"
    using Cons.prems(1) it by auto
  have z: "\<forall>v \<in> snd ` set (pattern_votes style ps text d). v = 0"
    by (rule pattern_votes_zero [OF ps Cons.prems(2)])
  have items: "\<forall>(style, ps) \<in> set items. \<forall>p \<in> set ps. re_findall p no_flags text = []"
    using Cons.prems(1) by simp
  have "\<forall>v \<in> snd ` set (all_pattern_votes items text (pattern_votes style ps text d)). v = 0"
    by (rule Cons.IH [OF items z])
  then show ?case
    by (simp only: it all_pattern_votes.simps)
qed

lemma delete_zero: "\<forall>v \<in> snd ` set d. v = (0::nat) \<Longrightarrow> \<forall>v \<in> snd ` set (AList.delete k d). v = 0"
  by (induction d) auto

lemma merge_chicago_zero:
  assumes "\<forall>v \<in> snd ` set d. v = 0"
  shows "\<forall>v \<in> snd ` set (merge_chicago d). v = 0"
proof -
  let ?d1 = "AList.delete ''CHICAGO_AUTHOR_DATE'' d"
  let ?d2 = "AList.delete ''CHICAGO_NOTES'' ?d1"
  have z1: "\<forall>v \<in> snd ` set ?d1. v = 0" by (rule delete_zero [OF assms])
  have z2: "\<forall>v \<in> snd ` set ?d2. v = 0" by (rule delete_zero [OF z1])
  have "dict_get_default d ''CHICAGO_AUTHOR_DATE'' 0 + dict_get_default ?d1 ''CHICAGO_NOTES'' 0 = 0"
    using get_default_zero [OF assms] get_default_zero [OF z1] by simp
  then show ?thesis
    using assms update_zero [OF z2, of "''CHICAGO''"]
    by (simp add: merge_chicago_def Let_def)
qed

lemma max_item_member: "max_item kv kvs \<in> set (kv # kvs)"
proof -
  obtain k0 v0 where kv: "kv = (k0, v0)" by (cases kv)
  obtain k v where m: "max_item (k0, v0) kvs = (k, v)" by (cases "max_item (k0, v0) kvs")
  from max_fold [OF m [unfolded max_item_def]] show ?thesis
    using kv m by simp
qed

text \<open>
  Claim C10. For every text in which no bibliography header and no in-text pattern of the
  extractor has a match, \<open>_detect_citation_style\<close> returns \<open>APA\<close>, its default; and
  \<open>extract_all_citations\<close>, called without a style, then extracts with the style
  \<open>APA\<close>: there is no sentinel for \<open>no citations\<close> here.
\<close>

theorem detect_citation_style_default:
  assumes headers: "\<forall>h \<in> set all_headers.
                      re_search (header_pattern h) IGNORECASE_MULTILINE text = None"
    and patterns: "\<forall>(style, ps) \<in> set extractor_in_text_patterns.
                      \<forall>p \<in> set ps. re_findall p no_flags text = []"
  shows "detect_citation_style text = ''APA''
     \<and> extract_all_citations version ex text None =
         (case extract_in_text_citations version ex text ''APA'' of
            Inl e \<Rightarrow> Inl e
          | Inr found_in_text \<Rightarrow>
              (case extract_bibliography_citations version text ''APA'' of
                 Inl e \<Rightarrow> Inl e
               | Inr found_bibliography \<Rightarrow>
                   Inr \<lparr>en_texto = found_in_text, bibliograficas = found_bibliography\<rparr>))"
proof -
  let ?d = "merge_chicago (all_pattern_votes extractor_in_text_patterns text
                 (all_header_votes bibliography_headers text []))"
  have h: "all_header_votes bibliography_headers text [] = []"
    by (rule all_header_votes_none) (use headers in \<open>simp only: all_headers_def\<close>)
  have "\<forall>v \<in> snd ` set (all_pattern_votes extractor_in_text_patterns text []). v = 0"
    by (rule all_pattern_votes_zero [OF patterns]) simp
  then have z: "\<forall>v \<in> snd ` set ?d. v = 0"
    unfolding h by (rule merge_chicago_zero)
  have "detect_citation_style text = ''APA''"
  proof (cases ?d)
    case Nil
    then show ?thesis by (simp add: detect_citation_style_def Let_def)
  next
    case (Cons kv kvs)
    obtain k v where m: "max_item kv kvs = (k, v)" by (cases "max_item kv kvs")
    have "(k, v) \<in> set ?d" using max_item_member [of kv kvs] m Cons by simp
    then have "v = 0" using z by force
    then show ?thesis using Cons m by (simp add: detect_citation_style_def Let_def)
  qed
  then show ?thesis by (simp add: extract_all_citations_def Let_def)
qed

lemma plain_headers:
  "list_all (\<lambda>h. re_search (header_pattern h) IGNORECASE_MULTILINE ''Plain text.'' = None)
     all_headers"
  by code_simp

lemma plain_patterns:
  "list_all (\<lambda>(style, ps). list_all (\<lambda>p. re_findall p no_flags ''Plain text.'' = []) ps)
     extractor_in_text_patterns"
  by code_simp

text \<open>A text without any citation.\<close>

theorem detect_citation_style_default_witness:
  "list_all (\<lambda>h. re_search (header_pattern h) IGNORECASE_MULTILINE ''Plain text.'' = None)
     all_headers
   \<and> list_all (\<lambda>(style, ps). list_all (\<lambda>p. re_findall p no_flags ''Plain text.'' = []) ps)
       extractor_in_text_patterns
   \<and> detect_citation_style ''Plain text.'' = ''APA''
   \<and> extract_all_citations Before_3_11 \<lparr>ext_patterns = None\<rparr> ''Plain text.'' None =
       (case extract_in_text_citations Before_3_11 \<lparr>ext_patterns = None\<rparr> ''Plain text.'' ''APA'' of
          Inl e \<Rightarrow> Inl e
        | Inr found_in_text \<Rightarrow>
            (case extract_bibliography_citations Before_3_11 ''Plain text.'' ''APA'' of
               Inl e \<Rightarrow> Inl e
             | Inr found_bibliography \<Rightarrow>
                 Inr \<lparr>en_texto = found_in_text, bibliograficas = found_bibliography\<rparr>))"
proof -
  have h: "\<forall>h \<in> set all_headers.
             re_search (header_pattern h) IGNORECASE_MULTILINE ''Plain text.'' = None"
    using plain_headers by (simp add: list_all_iff)
  have p: "\<forall>(style, ps) \<in> set extractor_in_text_patterns.
             \<forall>p \<in> set ps. re_findall p no_flags ''Plain text.'' = []"
    using plain_patterns by (simp add: list_all_iff case_prod_unfold)
  from detect_citation_style_default [OF h p, of Before_3_11 "\<lparr>ext_patterns = None\<rparr>"]
  show ?thesis
    using plain_headers plain_patterns by blast
qed

end
